theory Spec2Isabelle
  imports Main "HOL-Library.AList"
begin

section \<open>Helper functions of \<^verbatim>\<open>qcircuit.py\<close>\<close>

subsection \<open>\<^verbatim>\<open>_check_qubit_overflow\<close>\<close>

text \<open>
  \<^verbatim>\<open>
  def _check_qubit_overflow(qubits, n):
      for qubit in qubits:
          if qubit >= n:
              return False
      return True
  \<close>
  The qubits and \<open>n\<close> are Python integers (unbounded), hence \<open>int\<close>.
\<close>

fun check_qubit_overflow :: "int list \<Rightarrow> int \<Rightarrow> bool" where
  "check_qubit_overflow [] n = True"
| "check_qubit_overflow (qubit # qubits) n =
     (if qubit \<ge> n then False else check_qubit_overflow qubits n)"

subsection \<open>Python values, qubits and exceptions\<close>

text \<open>
  The arguments a caller may hand to \<^verbatim>\<open>assign\<close> and \<^verbatim>\<open>append\<close> are arbitrary Python
  values; the constructors below are the ones the code distinguishes (\<^verbatim>\<open>isinstance\<close>
  against \<^verbatim>\<open>int\<close> and \<^verbatim>\<open>list\<close>, truthiness of \<^verbatim>\<open>expand\<close>).
\<close>

text \<open>
  A Python \<^verbatim>\<open>str\<close> is the list of its code points; \<open>str_of\<close> writes one from a literal.
\<close>

type_synonym pystr = "nat list"

definition str_of :: "string \<Rightarrow> pystr" where
  "str_of s = map of_char s"

datatype pyval =
    PNone
  | PBool bool
  | PInt int
  | PStr pystr
  | PList "pyval list"
  | PDict "(pyval \<times> pyval) list"

text \<open>A qubit is an integer index or a placeholder key (\<^verbatim>\<open>qubit (int, str)\<close> in the docstrings).\<close>

datatype qubit = QInt int | QStr pystr

text \<open>
  A qubit map is a Python \<^verbatim>\<open>dict\<close>: insertion ordered, one entry per key.
  \<^verbatim>\<open>qubit_map[q] = v\<close> is \<^const>\<open>AList.update\<close> and \<^verbatim>\<open>q in qubit_map\<close> is
  \<open>map_of qubit_map q \<noteq> None\<close>.
\<close>

type_synonym qubit_map = "(qubit \<times> pyval) list"

text \<open>
  The messages of the \<^verbatim>\<open>RuntimeError\<close>s the file raises, with the values their format
  strings print kept as data.
\<close>

datatype errmsg =
    NotCovered (expect: "qubit list") (get: qubit_map)
      \<comment> \<open>\<^verbatim>\<open>'Qubit map does not cover all involved qubits. ... Expect: {}, Get: {}'\<close>\<close>
  | KeyStyle pystr
      \<comment> \<open>\<^verbatim>\<open>'Input must be q+integer=integer style ... User input: {}'\<close>\<close>
  | ValueStyle pystr pyval
      \<comment> \<open>\<^verbatim>\<open>'... User input: {}, assigned_q: {}'\<close>\<close>
  | Fatal
      \<comment> \<open>\<^verbatim>\<open>'Fatal!!! Unexpected error.'\<close>\<close>
  | FragmentAppend
      \<comment> \<open>\<^verbatim>\<open>'Append a fragment circuit without assigning qubits.'\<close>\<close>

datatype exn =
    RuntimeError errmsg
  | ValueError
  | TypeError
  | KeyError
  | NotImplementedError
  | RecursionError

fun truthy :: "pyval \<Rightarrow> bool" where
  "truthy PNone = False"
| "truthy (PBool b) = b"
| "truthy (PInt i) = (i \<noteq> 0)"
| "truthy (PStr s) = (s \<noteq> [])"
| "truthy (PList l) = (l \<noteq> [])"
| "truthy (PDict d) = (d \<noteq> [])"

text \<open>\<^verbatim>\<open>isinstance(v, int)\<close>; \<^verbatim>\<open>bool\<close> is a subclass of \<^verbatim>\<open>int\<close>.\<close>

fun isinstance_int :: "pyval \<Rightarrow> bool" where
  "isinstance_int (PInt i) = True"
| "isinstance_int (PBool b) = True"
| "isinstance_int v = False"

subsection \<open>Python's \<^verbatim>\<open>int(str)\<close>\<close>

text \<open>
  \<^verbatim>\<open>_check_qubit_key\<close> hands the key without its first character to the builtin
  \<^verbatim>\<open>int\<close>.  For a string argument (base 10) CPython first brings the string to ASCII
  (\<^verbatim>\<open>_PyUnicode_TransformDecimalAndSpaceToASCII\<close>): a code point below 127 stays, from
  127 on a Unicode white space becomes a space, a Unicode decimal digit becomes the ASCII
  digit of its value, and anything else becomes a character that cannot be read.  Then
  \<^verbatim>\<open>PyLong_FromString\<close> skips leading white space, reads an optional sign, then digits
  in which single underscores may separate two digits, skips trailing white space, and
  raises \<^verbatim>\<open>ValueError\<close> when anything is left, when there is no digit, or when the
  number of digits exceeds the interpreter's limit.

  What belongs to the interpreter is a parameter: the limit
  (\<^verbatim>\<open>sys.get_int_max_str_digits()\<close>: 4300 by default since Python 3.11, 0 for no limit)
  and the two tables of its Unicode database, \<^verbatim>\<open>Py_UNICODE_ISSPACE\<close> and
  \<^verbatim>\<open>Py_UNICODE_TODECIMAL\<close> (\<open>None\<close> for the C value -1), which are read from code point
  127 on only.
\<close>

record interp =
  int_max_str_digits :: nat
  unicode_isspace :: "nat \<Rightarrow> bool"
  unicode_decimal :: "nat \<Rightarrow> nat option"

text \<open>
  White space after the transformation: tab, line feed, vertical tab, form feed, carriage
  return and space below 127, the white space of the table above.
\<close>

definition Py_ISSPACE :: "'x interp_scheme \<Rightarrow> nat \<Rightarrow> bool" where
  "Py_ISSPACE I c =
     (if c < 127 then c \<in> {9, 10, 11, 12, 13, 32} else unicode_isspace I c)"

text \<open>
  The digit a code point is read as, if any: an ASCII digit below 127; above, a decimal
  digit of the table that is not white space (white space is looked up first).
\<close>

definition digit_of :: "'x interp_scheme \<Rightarrow> nat \<Rightarrow> nat option" where
  "digit_of I c =
     (if c < 127 then (if 48 \<le> c \<and> c \<le> 57 then Some (c - 48) else None)
      else if unicode_isspace I c then None
      else case unicode_decimal I c of
             Some d \<Rightarrow> if d < 10 then Some d else None
           | None \<Rightarrow> None)"

definition is_digit :: "'x interp_scheme \<Rightarrow> nat \<Rightarrow> bool" where
  "is_digit I c = (digit_of I c \<noteq> None)"

definition digit_val :: "'x interp_scheme \<Rightarrow> nat \<Rightarrow> nat" where
  "digit_val I c = (case digit_of I c of Some d \<Rightarrow> d | None \<Rightarrow> 0)"

text \<open>
  The digit scanner: \<open>prev_us\<close> tells that the previous character was an underscore.  It
  stops at the first character that is neither a digit nor an underscore and returns the
  digits read and the rest; two underscores in a row and an underscore at the end of the
  digits are errors (None).
\<close>

fun scan_digits ::
  "'x interp_scheme \<Rightarrow> pystr \<Rightarrow> bool \<Rightarrow> nat list \<Rightarrow> (nat list \<times> pystr) option" where
  "scan_digits I [] prev_us acc = (if prev_us then None else Some (acc, []))"
| "scan_digits I (c # cs) prev_us acc =
     (if is_digit I c then scan_digits I cs False (acc @ [digit_val I c])
      else if c = of_char CHR ''_'' then (if prev_us then None else scan_digits I cs True acc)
      else if prev_us then None else Some (acc, c # cs))"

definition digits_value :: "nat list \<Rightarrow> nat" where
  "digits_value ds = foldl (\<lambda>a d. 10 * a + d) 0 ds"

definition py_int :: "'x interp_scheme \<Rightarrow> pystr \<Rightarrow> exn + int" where
  "py_int I s =
     (let s1 = dropWhile (Py_ISSPACE I) s;
          negative = (case s1 of c # r \<Rightarrow> c = of_char CHR ''-'' | [] \<Rightarrow> False);
          s2 = (case s1 of
                  c # r \<Rightarrow> if c = of_char CHR ''+'' \<or> c = of_char CHR ''-'' then r else s1
                | [] \<Rightarrow> [])
      in if (case s2 of c # r \<Rightarrow> c = of_char CHR ''_'' | [] \<Rightarrow> False) then Inl ValueError
         else case scan_digits I s2 False [] of
                None \<Rightarrow> Inl ValueError
              | Some (ds, rest) \<Rightarrow>
                  if ds = [] then Inl ValueError
                  else if dropWhile (Py_ISSPACE I) rest \<noteq> [] then Inl ValueError
                  else if 0 < int_max_str_digits I \<and> int_max_str_digits I < length ds
                  then Inl ValueError
                  else Inr (if negative then - int (digits_value ds) else int (digits_value ds)))"

subsection \<open>\<^verbatim>\<open>_check_qubit_key\<close>\<close>

text \<open>
  \<^verbatim>\<open>
  def _check_qubit_key(qubit_key: str):
      if not qubit_key.startswith('q'):
          return None
      try:
          q = int(qubit_key[1:])
          return q
      except:
          return None
  \<close>
  The result is \<open>Inr None\<close> for Python's \<^verbatim>\<open>None\<close>, \<open>Inr (Some q)\<close> for the integer, and
  \<open>Inl e\<close> would be an exception that leaves the function; the bare \<^verbatim>\<open>except\<close> turns
  every exception of \<^verbatim>\<open>int\<close> into \<^verbatim>\<open>None\<close>.
\<close>

definition startswith_q :: "pystr \<Rightarrow> bool" where
  "startswith_q s = (case s of c # r \<Rightarrow> c = of_char CHR ''q'' | [] \<Rightarrow> False)"

definition check_qubit_key :: "'x interp_scheme \<Rightarrow> pystr \<Rightarrow> exn + int option" where
  "check_qubit_key I qubit_key =
     (if \<not> startswith_q qubit_key then Inr None
      else case py_int I (drop 1 qubit_key) of
             Inr q \<Rightarrow> Inr (Some q)
           | Inl e \<Rightarrow> Inr None)"

section \<open>The classes \<^verbatim>\<open>Circuit\<close> and \<^verbatim>\<open>Fragment\<close>\<close>

subsection \<open>Objects and the heap\<close>

text \<open>
  Circuits are mutable objects that refer to each other: an entry of \<^verbatim>\<open>gate_list\<close> is a
  gate or a nested circuit, and \<^verbatim>\<open>_append_circuit\<close> compares identities.  So a circuit
  lives at an address of a heap, the list of all circuit objects made so far; the
  address of an object is its index, a new object is put at the end.  Gates belong to
  \<^verbatim>\<open>basic_gates\<close>, which is not part of the file: they are values of a type \<open>'g\<close>.
\<close>

type_synonym addr = nat

datatype 'g entry = GateE 'g | CircE addr

datatype pyclass = Circuit_class | Fragment_class

record 'g circuit =
  pyclass :: pyclass
  name :: "pystr option"
  gate_list :: "'g entry list"
  involved_qubits :: "qubit list"
  fragment :: bool
  expand :: bool
  mapping :: "qubit_map option"

type_synonym 'g heap = "'g circuit list"

text \<open>
  What the file uses of \<^verbatim>\<open>basic_gates\<close> and of the interpreter is a parameter of the
  model: the two methods of a gate (\<^verbatim>\<open>involved_qubits()\<close>, taken not to raise, and
  \<^verbatim>\<open>assign_by_map(qubit_map)\<close>, which may), the constructors \<^verbatim>\<open>Rx\<close>, \<^verbatim>\<open>Ry\<close>, \<^verbatim>\<open>Rz\<close>
  (\<open>'a\<close> is the type of the angle), and the interpreter's part of \<^verbatim>\<open>int\<close>.  The gate methods
  are functions of the gate and their argument: they do not touch circuits.
\<close>

record ('g, 'a) env =
  gate_involved_qubits :: "'g \<Rightarrow> qubit list"
  gate_assign_by_map :: "'g \<Rightarrow> qubit_map \<Rightarrow> exn + 'g"
  Rx :: "pyval \<Rightarrow> 'a \<Rightarrow> exn + 'g"
  Ry :: "pyval \<Rightarrow> 'a \<Rightarrow> exn + 'g"
  Rz :: "pyval \<Rightarrow> 'a \<Rightarrow> exn + 'g"
  interpreter :: interp

subsection \<open>Constructors\<close>

text \<open>
  \<^verbatim>\<open>
  def __init__(self, name = None):
      self.gate_list = []
      if not name: self.name = None
      else: self.name = name
      self.involved_qubits = []
      self.fragment = False
      self.expand = True
      self.mapping = None
  \<close>
  \<open>Circuit_init h name\<close> is the expression \<^verbatim>\<open>Circuit(name)\<close>: it returns the address of
  the new object and the heap that holds it.
\<close>

definition init_fields :: "pystr option \<Rightarrow> 'g circuit" where
  "init_fields nm =
     \<lparr> pyclass = Circuit_class,
       name = (case nm of None \<Rightarrow> None | Some s \<Rightarrow> if s = [] then None else Some s),
       gate_list = [],
       involved_qubits = [],
       fragment = False,
       expand = True,
       mapping = None \<rparr>"

definition Circuit_init :: "'g heap \<Rightarrow> pystr option \<Rightarrow> addr \<times> 'g heap" where
  "Circuit_init h nm = (length h, h @ [init_fields nm])"

text \<open>
  \<^verbatim>\<open>
  class Fragment(Circuit):
      def __init__(self, name):
          super().__init__(name)
          self.fragment = True
          self.expand = False
  \<close>
\<close>

definition Fragment_init :: "'g heap \<Rightarrow> pystr option \<Rightarrow> addr \<times> 'g heap" where
  "Fragment_init h nm =
     (length h,
      h @ [(init_fields nm) \<lparr> pyclass := Fragment_class, fragment := True, expand := False \<rparr>])"

subsection \<open>\<^verbatim>\<open>_check_qubit_map\<close>\<close>

fun check_qubit_map_loop :: "qubit list \<Rightarrow> qubit_map \<Rightarrow> bool" where
  "check_qubit_map_loop [] qm = True"
| "check_qubit_map_loop (qubit # qubits) qm =
     (if map_of qm qubit = None then False else check_qubit_map_loop qubits qm)"

definition check_qubit_map :: "'g circuit \<Rightarrow> qubit_map \<Rightarrow> bool" where
  "check_qubit_map self qm = check_qubit_map_loop (involved_qubits self) qm"

subsection \<open>\<^verbatim>\<open>_append_gate\<close>\<close>

text \<open>
  \<^verbatim>\<open>
  def _append_gate(self, gate_object : Gate):
      qubits = gate_object.involved_qubits()
      self.gate_list.append(gate_object)
      for qubit in qubits:
          if qubit not in self.involved_qubits:
              self.involved_qubits.append(qubit)
  \<close>
  \<^verbatim>\<open>assign_by_map\<close> also calls it with a nested circuit; there \<^verbatim>\<open>involved_qubits\<close> is a
  list attribute, not a method, and the call \<^verbatim>\<open>gate_object.involved_qubits()\<close> raises
  \<^verbatim>\<open>TypeError\<close> before anything is written.
\<close>

fun add_qubits :: "qubit list \<Rightarrow> qubit list \<Rightarrow> qubit list" where
  "add_qubits involved [] = involved"
| "add_qubits involved (qubit # qubits) =
     add_qubits (if qubit \<notin> set involved then involved @ [qubit] else involved) qubits"

definition append_gate ::
  "('g, 'a) env \<Rightarrow> 'g heap \<Rightarrow> addr \<Rightarrow> 'g entry \<Rightarrow> (exn + unit) \<times> 'g heap" where
  "append_gate E h self gate_object =
     (case gate_object of
        CircE c \<Rightarrow> (Inl TypeError, h)
      | GateE g \<Rightarrow>
          (let qubits = gate_involved_qubits E g;
               h1 = h[self := (h ! self) \<lparr> gate_list := gate_list (h ! self) @ [GateE g] \<rparr>]
           in (Inr (),
               h1[self := (h1 ! self)
                    \<lparr> involved_qubits := add_qubits (involved_qubits (h1 ! self)) qubits \<rparr>])))"

subsection \<open>\<^verbatim>\<open>assign_by_map\<close>\<close>

text \<open>
  \<^verbatim>\<open>
  def assign_by_map(self, qubit_map):
      ret = Circuit(self.name)
      if not self._check_qubit_map(qubit_map):
          raise RuntimeError('Qubit map does not cover all involved qubits. '
                             'Every involved qubits must be a key in qubit_map.\n'
                             f'Expect: {ret.involved_qubits}, Get: {qubit_map}')
      ret.mapping = qubit_map
      for gate in self.gate_list:
          assigned_gate = gate.assign_by_map(qubit_map)
          ret._append_gate(assigned_gate)
      return ret
  \<close>
  For an entry that is a nested circuit, \<^verbatim>\<open>gate.assign_by_map\<close> is this very method.
  Nested circuits may refer to each other in a cycle, and Python ends a recursion that is
  too deep with \<^verbatim>\<open>RecursionError\<close>: the first argument counts the calls of
  \<^verbatim>\<open>assign_by_map\<close> the interpreter's stack still has room for.  Every function that
  changes objects returns, with its result or exception, the heap it leaves behind.  The
  loop only writes to \<^verbatim>\<open>ret\<close>, the object this call has made, so it runs over the entries
  \<^verbatim>\<open>self.gate_list\<close> has when it starts.
\<close>

fun assign_by_map ::
    "('g, 'a) env \<Rightarrow> nat \<Rightarrow> 'g heap \<Rightarrow> addr \<Rightarrow> qubit_map \<Rightarrow> (exn + addr) \<times> 'g heap"
  and assign_gates ::
    "('g, 'a) env \<Rightarrow> nat \<Rightarrow> 'g heap \<Rightarrow> addr \<Rightarrow> 'g entry list \<Rightarrow> qubit_map
       \<Rightarrow> (exn + addr) \<times> 'g heap"
where
  "assign_by_map E 0 h self qm = (Inl RecursionError, h)"
| "assign_by_map E (Suc depth) h self qm =
     (case Circuit_init h (name (h ! self)) of
        (ret, h1) \<Rightarrow>
          if \<not> check_qubit_map (h1 ! self) qm
          then (Inl (RuntimeError (NotCovered (involved_qubits (h1 ! ret)) qm)), h1)
          else assign_gates E depth (h1[ret := (h1 ! ret) \<lparr> mapping := Some qm \<rparr>]) ret
                 (gate_list (h1 ! self)) qm)"
| "assign_gates E depth h ret [] qm = (Inr ret, h)"
| "assign_gates E depth h ret (gate # gates) qm =
     (case (case gate of
              GateE g \<Rightarrow>
                (case gate_assign_by_map E g qm of
                   Inl e \<Rightarrow> (Inl e, h)
                 | Inr g' \<Rightarrow> (Inr (GateE g'), h))
            | CircE c \<Rightarrow>
                (case assign_by_map E depth h c qm of
                   (Inl e, h') \<Rightarrow> (Inl e, h')
                 | (Inr r, h') \<Rightarrow> (Inr (CircE r), h')))
      of
        (Inl e, h') \<Rightarrow> (Inl e, h')
      | (Inr assigned_gate, h') \<Rightarrow>
          (case append_gate E h' ret assigned_gate of
             (Inl e, h'') \<Rightarrow> (Inl e, h'')
           | (Inr u, h'') \<Rightarrow> assign_gates E depth h'' ret gates qm))"

subsection \<open>\<^verbatim>\<open>_parse_qubit_map_from_kwargs\<close>, \<^verbatim>\<open>_parse_qubit_map_from_list\<close>, \<^verbatim>\<open>assign\<close>\<close>

text \<open>
  Keyword arguments are the list of their (name, value) pairs in call order.
  \<^verbatim>\<open>
  for key in keys:
      if key == 'n_qubit': continue
      q = _check_qubit_key(key)
      if q is None:
          raise RuntimeError('Input must be q+integer=integer style ... User input: {}'.format(key))
      assigned_q = kwargs[key]
      if not isinstance(assigned_q, int):
          raise RuntimeError('... User input: {}, assigned_q: {}'.format(key, assigned_q))
      qubit_map[q] = assigned_q
  return qubit_map
  \<close>
\<close>

fun parse_kwargs_loop ::
  "interp \<Rightarrow> (pystr \<times> pyval) list \<Rightarrow> qubit_map \<Rightarrow> exn + qubit_map" where
  "parse_kwargs_loop I [] qm = Inr qm"
| "parse_kwargs_loop I ((key, assigned_q) # kws) qm =
     (if key = str_of ''n_qubit'' then parse_kwargs_loop I kws qm
      else case check_qubit_key I key of
             Inl e \<Rightarrow> Inl e
           | Inr None \<Rightarrow> Inl (RuntimeError (KeyStyle key))
           | Inr (Some q) \<Rightarrow>
               if \<not> isinstance_int assigned_q
               then Inl (RuntimeError (ValueStyle key assigned_q))
               else parse_kwargs_loop I kws (AList.update (QInt q) assigned_q qm))"

definition parse_qubit_map_from_kwargs ::
  "('g, 'a) env \<Rightarrow> (pystr \<times> pyval) list \<Rightarrow> exn + qubit_map" where
  "parse_qubit_map_from_kwargs E kwargs = parse_kwargs_loop (interpreter E) kwargs []"

text \<open>
  \<^verbatim>\<open>
  def _parse_qubit_map_from_list(self, *args):
      if len(args) == 0:
          raise RuntimeError('Fatal!!! Unexpected error.')
      if isinstance(args[0], list): qubit_list = args[0]
      else: qubit_list = args
      qubit_map = dict()
      for i, qubit in enumerate(qubit_list):
          qubit_map[i] = qubit
      return qubit_map
  \<close>
\<close>

fun enumerate_loop :: "nat \<Rightarrow> pyval list \<Rightarrow> qubit_map \<Rightarrow> qubit_map" where
  "enumerate_loop i [] qm = qm"
| "enumerate_loop i (qubit # qubit_list) qm =
     enumerate_loop (Suc i) qubit_list (AList.update (QInt (int i)) qubit qm)"

definition parse_qubit_map_from_list :: "pyval list \<Rightarrow> exn + qubit_map" where
  "parse_qubit_map_from_list args =
     (case args of
        [] \<Rightarrow> Inl (RuntimeError Fatal)
      | a0 # as \<Rightarrow>
          Inr (enumerate_loop 0 (case a0 of PList l \<Rightarrow> l | _ \<Rightarrow> args) []))"

text \<open>
  \<^verbatim>\<open>
  def assign(self, *args, **kwargs):
      if len(args) > 0:
          qubit_map = self._parse_qubit_map_from_list(*args)
      else:
          qubit_map = self._parse_qubit_map_from_kwargs(**kwargs)
      ret = self.assign_by_map(qubit_map)
      return ret
  \<close>
\<close>

definition assign ::
  "('g, 'a) env \<Rightarrow> nat \<Rightarrow> 'g heap \<Rightarrow> addr \<Rightarrow> pyval list \<Rightarrow> (pystr \<times> pyval) list
     \<Rightarrow> (exn + addr) \<times> 'g heap" where
  "assign E depth h self args kwargs =
     (case (if length args > 0 then parse_qubit_map_from_list args
            else parse_qubit_map_from_kwargs E kwargs) of
        Inl e \<Rightarrow> (Inl e, h)
      | Inr qm \<Rightarrow> assign_by_map E depth h self qm)"

text \<open>
  \<^verbatim>\<open>
  class Fragment(Circuit):
      def assign(self, *args, **kwargs):
          ret = super().assign(*args, **kwargs)
          ret.expand = False
          return ret
  \<close>
\<close>

definition Fragment_assign ::
  "('g, 'a) env \<Rightarrow> nat \<Rightarrow> 'g heap \<Rightarrow> addr \<Rightarrow> pyval list \<Rightarrow> (pystr \<times> pyval) list
     \<Rightarrow> (exn + addr) \<times> 'g heap" where
  "Fragment_assign E depth h self args kwargs =
     (case assign E depth h self args kwargs of
        (Inl e, h') \<Rightarrow> (Inl e, h')
      | (Inr ret, h') \<Rightarrow> (Inr ret, h'[ret := (h' ! ret) \<lparr> expand := False \<rparr>]))"

text \<open>The method a call \<^verbatim>\<open>c.assign(...)\<close> runs is the one of the class of \<^verbatim>\<open>c\<close>.\<close>

definition call_assign ::
  "('g, 'a) env \<Rightarrow> nat \<Rightarrow> 'g heap \<Rightarrow> addr \<Rightarrow> pyval list \<Rightarrow> (pystr \<times> pyval) list
     \<Rightarrow> (exn + addr) \<times> 'g heap" where
  "call_assign E depth h self args kwargs =
     (if pyclass (h ! self) = Fragment_class then Fragment_assign E depth h self args kwargs
      else assign E depth h self args kwargs)"

subsection \<open>\<^verbatim>\<open>deepcopy\<close>\<close>

text \<open>
  Modelled from the spec: \<^verbatim>\<open>deepcopy\<close> is not defined in the file (it can only reach it
  through \<^verbatim>\<open>from .basic_gates import *\<close>); the spec says that on a self-append
  ``a deep copy is taken'', so it is Python's \<^verbatim>\<open>copy.deepcopy\<close>.  That function copies
  every object reachable from its argument once, and the copies refer to each other as the
  originals do.  Here all circuits of the heap are copied in one go, the copy of the object
  at \<open>p\<close> going to \<open>p + length h\<close>: the copy of the circuits reachable from the argument
  is the same up to the choice of the new addresses, and the other copies are reachable
  from nowhere.  Gates are values, a copy of a gate is the gate.
\<close>

fun relocate_entry :: "nat \<Rightarrow> 'g entry \<Rightarrow> 'g entry" where
  "relocate_entry n (GateE g) = GateE g"
| "relocate_entry n (CircE c) = CircE (c + n)"

definition relocate :: "nat \<Rightarrow> 'g circuit \<Rightarrow> 'g circuit" where
  "relocate n c = c \<lparr> gate_list := map (relocate_entry n) (gate_list c) \<rparr>"

definition deepcopy :: "'g heap \<Rightarrow> addr \<Rightarrow> addr \<times> 'g heap" where
  "deepcopy h c = (c + length h, h @ map (relocate (length h)) h)"

subsection \<open>\<^verbatim>\<open>_append_circuit\<close>\<close>

text \<open>
  \<^verbatim>\<open>
  def _append_circuit(self, new_circuit, expand = True):
      if isinstance(new_circuit, Fragment):
          raise RuntimeError('Append a fragment circuit without assigning qubits.')
      if id(new_circuit) == id(self):
          new_circuit = deepcopy(new_circuit)
      for qubit in new_circuit.involved_qubits:
          if qubit not in self.involved_qubits:
              self.involved_qubits.append(qubit)
      if expand or new_circuit.expand:
          for gate in new_circuit.gate_list:
              self.gate_list.append(gate)
      else:
          self.gate_list.append(new_circuit)
  \<close>
  The two loops read a list of \<^verbatim>\<open>new_circuit\<close> while they write to a list of
  \<^verbatim>\<open>self\<close>.  A Python \<^verbatim>\<open>for\<close> over a list keeps an index and, at each step, compares
  it with the length the list has then; so the loops below read the heap of the moment,
  and they are partial: \<open>None\<close> is a loop that never ends, which is what the second one
  does when both objects are the same and the list is not empty.
\<close>

partial_function (option) merge_qubits_loop ::
  "'g heap \<Rightarrow> addr \<Rightarrow> addr \<Rightarrow> nat \<Rightarrow> 'g heap option" where
  "merge_qubits_loop h self new_circuit i =
     (if i < length (involved_qubits (h ! new_circuit))
      then merge_qubits_loop
             (if involved_qubits (h ! new_circuit) ! i \<notin> set (involved_qubits (h ! self))
              then h[self := (h ! self)
                       \<lparr> involved_qubits :=
                           involved_qubits (h ! self) @ [involved_qubits (h ! new_circuit) ! i] \<rparr>]
              else h)
             self new_circuit (Suc i)
      else Some h)"

partial_function (option) extend_gates_loop ::
  "'g heap \<Rightarrow> addr \<Rightarrow> addr \<Rightarrow> nat \<Rightarrow> 'g heap option" where
  "extend_gates_loop h self new_circuit i =
     (if i < length (gate_list (h ! new_circuit))
      then extend_gates_loop
             (h[self := (h ! self)
                  \<lparr> gate_list := gate_list (h ! self) @ [gate_list (h ! new_circuit) ! i] \<rparr>])
             self new_circuit (Suc i)
      else Some h)"

declare merge_qubits_loop.simps [code]
declare extend_gates_loop.simps [code]

definition append_circuit ::
  "'g heap \<Rightarrow> addr \<Rightarrow> addr \<Rightarrow> bool \<Rightarrow> ((exn + unit) \<times> 'g heap) option" where
  "append_circuit h self new_circuit expand_arg =
     (if pyclass (h ! new_circuit) = Fragment_class
      then Some (Inl (RuntimeError FragmentAppend), h)
      else
        case (if new_circuit = self then deepcopy h new_circuit else (new_circuit, h)) of
          (new_circuit', h1) \<Rightarrow>
            (case merge_qubits_loop h1 self new_circuit' 0 of
               None \<Rightarrow> None
             | Some h2 \<Rightarrow>
                 if expand_arg \<or> expand (h2 ! new_circuit')
                 then (case extend_gates_loop h2 self new_circuit' 0 of
                         None \<Rightarrow> None
                       | Some h3 \<Rightarrow> Some (Inr (), h3))
                 else Some (Inr (),
                        h2[self := (h2 ! self)
                             \<lparr> gate_list := gate_list (h2 ! self) @ [CircE new_circuit'] \<rparr>])))"

subsection \<open>\<^verbatim>\<open>append\<close>\<close>

text \<open>
  \<^verbatim>\<open>
  def append(self, object, **kwargs):
      if isinstance(object, Circuit):
          if 'expand' in kwargs: expand = kwargs['expand']
          else: expand = False
          self._append_circuit(object, expand)
      elif isinstance(object, Gate):
          self._append_gate(object)
      else:
          raise NotImplementedError
  \<close>
  The argument is a circuit (of either class), a gate, or any other value.
\<close>

datatype 'g pyobject = Circuit_obj addr | Gate_obj 'g | Other_obj pyval

definition kwargs_expand :: "(pystr \<times> pyval) list \<Rightarrow> bool" where
  "kwargs_expand kwargs =
     (case map_of kwargs (str_of ''expand'') of Some v \<Rightarrow> truthy v | None \<Rightarrow> False)"

definition append ::
  "('g, 'a) env \<Rightarrow> 'g heap \<Rightarrow> addr \<Rightarrow> 'g pyobject \<Rightarrow> (pystr \<times> pyval) list
     \<Rightarrow> ((exn + unit) \<times> 'g heap) option" where
  "append E h self object kwargs =
     (case object of
        Circuit_obj c \<Rightarrow> append_circuit h self c (kwargs_expand kwargs)
      | Gate_obj g \<Rightarrow> Some (append_gate E h self (GateE g))
      | Other_obj v \<Rightarrow> Some (Inl NotImplementedError, h))"

subsection \<open>The gate builders \<^verbatim>\<open>rx\<close>, \<^verbatim>\<open>ry\<close>, \<^verbatim>\<open>rz\<close>\<close>

text \<open>
  \<^verbatim>\<open>
  def rx(self, qubit, angle):
      self._append_gate(Rx(qubit, angle))
      return self

  def ry(self, qubit, angle):
      self._append_gate(Ry(qubit, angle))
      return self

  def rz(self, qubit, angle):
      self._append_gate(Rz(qubit, angle))
  \<close>
  The value returned is \<open>Some self\<close> for the object itself and \<open>None\<close> for Python's
  \<^verbatim>\<open>None\<close>, which a method without \<^verbatim>\<open>return\<close> yields.
\<close>

definition rx ::
  "('g, 'a) env \<Rightarrow> 'g heap \<Rightarrow> addr \<Rightarrow> pyval \<Rightarrow> 'a \<Rightarrow> (exn + addr option) \<times> 'g heap" where
  "rx E h self qubit angle =
     (case Rx E qubit angle of
        Inl e \<Rightarrow> (Inl e, h)
      | Inr g \<Rightarrow>
          (case append_gate E h self (GateE g) of
             (Inl e, h') \<Rightarrow> (Inl e, h')
           | (Inr u, h') \<Rightarrow> (Inr (Some self), h')))"

definition ry ::
  "('g, 'a) env \<Rightarrow> 'g heap \<Rightarrow> addr \<Rightarrow> pyval \<Rightarrow> 'a \<Rightarrow> (exn + addr option) \<times> 'g heap" where
  "ry E h self qubit angle =
     (case Ry E qubit angle of
        Inl e \<Rightarrow> (Inl e, h)
      | Inr g \<Rightarrow>
          (case append_gate E h self (GateE g) of
             (Inl e, h') \<Rightarrow> (Inl e, h')
           | (Inr u, h') \<Rightarrow> (Inr (Some self), h')))"

definition rz ::
  "('g, 'a) env \<Rightarrow> 'g heap \<Rightarrow> addr \<Rightarrow> pyval \<Rightarrow> 'a \<Rightarrow> (exn + addr option) \<times> 'g heap" where
  "rz E h self qubit angle =
     (case Rz E qubit angle of
        Inl e \<Rightarrow> (Inl e, h)
      | Inr g \<Rightarrow>
          (case append_gate E h self (GateE g) of
             (Inl e, h') \<Rightarrow> (Inl e, h')
           | (Inr u, h') \<Rightarrow> (Inr None, h')))"

subsection \<open>A gate set for closed instances\<close>

text \<open>
  Modelled from the spec: the gate classes are in \<^verbatim>\<open>basic_gates\<close>, which is not part of
  the file.  The spec asks of a gate that it ``exposes \<^verbatim>\<open>involved_qubits()\<close> and an
  \<^verbatim>\<open>assign_by_map(qubit_map)\<close> operation returning a new gate bound to specific qubits''.
  The gates below do that: a gate is its kind, its qubit and its angle (an integer here);
  binding looks the qubit up in the map and fails with \<^verbatim>\<open>KeyError\<close> when it is not a key
  and with \<^verbatim>\<open>TypeError\<close> when the target is neither an integer nor a string.  The
  general theorems hold for every gate set; this one only instantiates them.
\<close>

datatype sample_gate = Sample_gate string qubit int

fun sample_qubit :: "pyval \<Rightarrow> exn + qubit" where
  "sample_qubit (PInt i) = Inr (QInt i)"
| "sample_qubit (PStr s) = Inr (QStr s)"
| "sample_qubit v = Inl TypeError"

definition sample_gate :: "string \<Rightarrow> pyval \<Rightarrow> int \<Rightarrow> exn + sample_gate" where
  "sample_gate kind qubit angle =
     (case sample_qubit qubit of Inl e \<Rightarrow> Inl e | Inr q \<Rightarrow> Inr (Sample_gate kind q angle))"

fun sample_involved_qubits :: "sample_gate \<Rightarrow> qubit list" where
  "sample_involved_qubits (Sample_gate kind q angle) = [q]"

fun sample_assign_by_map :: "sample_gate \<Rightarrow> qubit_map \<Rightarrow> exn + sample_gate" where
  "sample_assign_by_map (Sample_gate kind q angle) qm =
     (case map_of qm q of
        None \<Rightarrow> Inl KeyError
      | Some v \<Rightarrow> sample_gate kind v angle)"

text \<open>
  An interpreter for the closed instances: the default digit limit, and of the Unicode
  tables the two white spaces below 256 and the Arabic-Indic digits (U+0660 to U+0669).
\<close>

definition sample_interp :: interp where
  "sample_interp =
     \<lparr> int_max_str_digits = 4300,
       unicode_isspace = (\<lambda>c. c = 133 \<or> c = 160),
       unicode_decimal = (\<lambda>c. if 1632 \<le> c \<and> c \<le> 1641 then Some (c - 1632) else None) \<rparr>"

definition sample_env :: "(sample_gate, int) env" where
  "sample_env =
     \<lparr> gate_involved_qubits = sample_involved_qubits,
       gate_assign_by_map = sample_assign_by_map,
       Rx = sample_gate ''RX'',
       Ry = sample_gate ''RY'',
       Rz = sample_gate ''RZ'',
       interpreter = sample_interp \<rparr>"

text \<open>
  The objects of the closed instances, built by the calls
  \<^verbatim>\<open>
  A = Circuit(); A.rx(0, 157); A.ry(1, 314)
  f = Fragment('frag'); f.rx(0, 10)
  r = f.assign(5)
  \<close>
  which leave \<^verbatim>\<open>A\<close> at address 0, \<^verbatim>\<open>f\<close> at 1 and \<^verbatim>\<open>r\<close> at 2.
\<close>

definition sample_heap :: "sample_gate heap" where
  "sample_heap =
     (case Circuit_init [] None of (A, h0) \<Rightarrow>
      case rx sample_env h0 A (PInt 0) 157 of (r1, h1) \<Rightarrow>
      case ry sample_env h1 A (PInt 1) 314 of (r2, h2) \<Rightarrow>
      case Fragment_init h2 (Some (str_of ''frag'')) of (f, h3) \<Rightarrow>
      case rx sample_env h3 f (PInt 0) 10 of (r3, h4) \<Rightarrow>
      case call_assign sample_env 1000 h4 f [PInt 5] [] of (r, h5) \<Rightarrow> h5)"


subsection \<open>The strings \<^verbatim>\<open>int\<close> accepts, in words\<close>

text \<open>
  The grammar of the strings that \<^verbatim>\<open>int\<close> accepts, written from its documentation and
  not from the scanner above, to state what \<^verbatim>\<open>_check_qubit_key\<close> accepts: white space,
  an optional sign, a group of digits, white space.  A group of digits starts and ends
  with a digit, and between two digits there is at most one underscore.  White space and
  digits are those of \<^const>\<open>Py_ISSPACE\<close> and \<^const>\<open>is_digit\<close>, Unicode ones included.
\<close>

fun digit_group :: "'x interp_scheme \<Rightarrow> pystr \<Rightarrow> bool" where
  "digit_group I [] = False"
| "digit_group I [c] = is_digit I c"
| "digit_group I (c # d # cs) =
     (is_digit I c
      \<and> (if d = of_char CHR ''_'' then digit_group I cs else digit_group I (d # cs)))"

text \<open>What may follow a digit inside a group: nothing, or an underscore and a group, or a group.\<close>

fun group_tail :: "'x interp_scheme \<Rightarrow> pystr \<Rightarrow> bool" where
  "group_tail I [] = True"
| "group_tail I (c # cs) =
     (if c = of_char CHR ''_'' then digit_group I cs else digit_group I (c # cs))"

text \<open>Where the scanner stops: at the end, or before a character that is no digit and no underscore.\<close>

definition stops :: "'x interp_scheme \<Rightarrow> pystr \<Rightarrow> bool" where
  "stops I rest =
     (case rest of [] \<Rightarrow> True | c # cs \<Rightarrow> \<not> is_digit I c \<and> c \<noteq> of_char CHR ''_'')"

definition group_value :: "'x interp_scheme \<Rightarrow> pystr \<Rightarrow> nat" where
  "group_value I body = digits_value (map (digit_val I) (filter (is_digit I) body))"

definition int_literal :: "'x interp_scheme \<Rightarrow> pystr \<Rightarrow> int \<Rightarrow> bool" where
  "int_literal I s n =
     (\<exists>l sg body r.
        s = l @ sg @ body @ r
        \<and> list_all (Py_ISSPACE I) l \<and> list_all (Py_ISSPACE I) r
        \<and> (sg = [] \<or> sg = str_of ''+'' \<or> sg = str_of ''-'')
        \<and> digit_group I body
        \<and> (int_max_str_digits I = 0
            \<or> length (filter (is_digit I) body) \<le> int_max_str_digits I)
        \<and> n = (if sg = str_of ''-'' then - int (group_value I body)
                else int (group_value I body)))"

text \<open>The decimal digits of a natural number, as \<^verbatim>\<open>str(n)\<close> writes them.\<close>

function decimal_digits :: "nat \<Rightarrow> pystr" where
  "decimal_digits n =
     (if n < 10 then [48 + n]
      else decimal_digits (n div 10) @ [48 + n mod 10])"
  by pat_completeness auto
termination
  by (relation "measure (\<lambda>n. n)") auto

declare decimal_digits.simps [simp del]

subsection \<open>A predicate of the statements\<close>

text \<open>
  An entry of a gate list that \<^verbatim>\<open>assign_by_map\<close> can bind: a gate, not a nested
  circuit, whose own \<^verbatim>\<open>assign_by_map(qubit_map)\<close> returns.
\<close>

definition binds :: "('g, 'a) env \<Rightarrow> qubit_map \<Rightarrow> 'g entry \<Rightarrow> bool" where
  "binds E qm e =
     (case e of
        GateE g \<Rightarrow> (case gate_assign_by_map E g qm of Inr g' \<Rightarrow> True | Inl err \<Rightarrow> False)
      | CircE c \<Rightarrow> False)"

text \<open>
  The circuit \<^verbatim>\<open>assign_by_map\<close> is to return for a circuit \<open>c\<close>, in the words of the
  spec: a new plain \<^verbatim>\<open>Circuit\<close> with the name of \<open>c\<close> and the map as its \<^verbatim>\<open>mapping\<close>,
  holding the bound copy of each gate of \<open>c\<close>, in order, and the qubits of these copies.
\<close>

definition bound_entry :: "('g, 'a) env \<Rightarrow> qubit_map \<Rightarrow> 'g entry \<Rightarrow> 'g entry" where
  "bound_entry E qm e =
     (case e of
        GateE g \<Rightarrow> (case gate_assign_by_map E g qm of Inr g' \<Rightarrow> GateE g' | Inl err \<Rightarrow> e)
      | CircE c \<Rightarrow> e)"

definition entry_qubits :: "('g, 'a) env \<Rightarrow> 'g entry \<Rightarrow> qubit list" where
  "entry_qubits E e = (case e of GateE g \<Rightarrow> gate_involved_qubits E g | CircE c \<Rightarrow> [])"

definition assigned_circuit :: "('g, 'a) env \<Rightarrow> qubit_map \<Rightarrow> 'g circuit \<Rightarrow> 'g circuit" where
  "assigned_circuit E qm c =
     (init_fields (name c))
       \<lparr> gate_list := map (bound_entry E qm) (gate_list c),
         involved_qubits :=
           add_qubits [] (concat (map (entry_qubits E) (map (bound_entry E qm) (gate_list c)))),
         mapping := Some qm \<rparr>"

section \<open>Properties\<close>

subsection \<open>The overflow check\<close>

lemma check_qubit_overflow_iff:
  "check_qubit_overflow qubits n = (\<forall>q \<in> set qubits. q < n)"
  by (induction qubits) auto

lemma check_qubit_overflow_at_bound: "check_qubit_overflow [0, 1, 3] 3 = False"
  by simp

subsection \<open>The loops of \<^verbatim>\<open>_append_circuit\<close>\<close>

lemma add_qubits_set: "set (add_qubits ivs qs) = set ivs \<union> set qs"
  by (induction qs arbitrary: ivs) auto

lemma add_qubits_absorb: "set qs \<subseteq> set ivs \<Longrightarrow> add_qubits ivs qs = ivs"
  by (induction qs arbitrary: ivs) auto

lemma add_qubits_distinct: "distinct ivs \<Longrightarrow> distinct (add_qubits ivs qs)"
  by (induction qs arbitrary: ivs) auto

lemma merge_qubits_loop_closed:
  assumes "new_circuit \<noteq> self" "self < length h"
  shows "merge_qubits_loop h self new_circuit i =
           Some (h[self := (h ! self) \<lparr> involved_qubits :=
                   add_qubits (involved_qubits (h ! self)) (drop i (involved_qubits (h ! new_circuit))) \<rparr>])"
  using assms
proof (induction "length (involved_qubits (h ! new_circuit)) - i" arbitrary: h i)
  case 0
  then show ?case
    by (subst merge_qubits_loop.simps) (simp add: list_update_same_conv)
next
  case (Suc k)
  let ?qs = "involved_qubits (h ! new_circuit)"
  from Suc.hyps(2) have lt: "i < length ?qs" by simp
  let ?h' = "if ?qs ! i \<notin> set (involved_qubits (h ! self))
             then h[self := (h ! self) \<lparr> involved_qubits := involved_qubits (h ! self) @ [?qs ! i] \<rparr>]
             else h"
  have same: "?h' ! new_circuit = h ! new_circuit"
    using Suc.prems by simp
  have len: "self < length ?h'" using Suc.prems by simp
  have k: "k = length (involved_qubits (?h' ! new_circuit)) - Suc i"
    using Suc.hyps(2) same by simp
  have step: "merge_qubits_loop h self new_circuit i = merge_qubits_loop ?h' self new_circuit (Suc i)"
    using lt by (subst merge_qubits_loop.simps) simp
  have dr: "drop i ?qs = ?qs ! i # drop (Suc i) ?qs"
    using lt by (simp add: Cons_nth_drop_Suc)
  show ?case
    unfolding step Suc.hyps(1)[OF k Suc.prems(1) len] same dr
    using Suc.prems by simp
qed

lemma extend_gates_loop_closed:
  assumes "new_circuit \<noteq> self" "self < length h"
  shows "extend_gates_loop h self new_circuit i =
           Some (h[self := (h ! self) \<lparr> gate_list :=
                   gate_list (h ! self) @ drop i (gate_list (h ! new_circuit)) \<rparr>])"
  using assms
proof (induction "length (gate_list (h ! new_circuit)) - i" arbitrary: h i)
  case 0
  then show ?case
    by (subst extend_gates_loop.simps) (simp add: list_update_same_conv)
next
  case (Suc k)
  let ?gs = "gate_list (h ! new_circuit)"
  from Suc.hyps(2) have lt: "i < length ?gs" by simp
  let ?h' = "h[self := (h ! self) \<lparr> gate_list := gate_list (h ! self) @ [?gs ! i] \<rparr>]"
  have same: "?h' ! new_circuit = h ! new_circuit"
    using Suc.prems by simp
  have len: "self < length ?h'" using Suc.prems by simp
  have k: "k = length (gate_list (?h' ! new_circuit)) - Suc i"
    using Suc.hyps(2) same by simp
  have step: "extend_gates_loop h self new_circuit i = extend_gates_loop ?h' self new_circuit (Suc i)"
    using lt by (subst extend_gates_loop.simps) simp
  have dr: "drop i ?gs = ?gs ! i # drop (Suc i) ?gs"
    using lt by (simp add: Cons_nth_drop_Suc)
  show ?case
    unfolding step Suc.hyps(1)[OF k Suc.prems(1) len] same dr
    using Suc.prems by simp
qed

lemma append_circuit_other:
  assumes "b \<noteq> a" "a < length h" "pyclass (h ! b) \<noteq> Fragment_class"
  shows "append_circuit h a b ex =
           Some (Inr (),
             h[a := (h ! a)
                 \<lparr> involved_qubits :=
                     add_qubits (involved_qubits (h ! a)) (involved_qubits (h ! b)),
                   gate_list := gate_list (h ! a) @
                     (if ex \<or> expand (h ! b) then gate_list (h ! b) else [CircE b]) \<rparr>])"
  using assms
  by (simp add: append_circuit_def merge_qubits_loop_closed extend_gates_loop_closed)

lemma deepcopy_nth:
  "c < length h \<Longrightarrow> snd (deepcopy h c) ! fst (deepcopy h c) = relocate (length h) (h ! c)"
  by (simp add: deepcopy_def nth_append)

lemma append_circuit_self:
  assumes "a < length h" "pyclass (h ! a) \<noteq> Fragment_class"
  shows "append_circuit h a a ex =
           Some (Inr (),
             (h @ map (relocate (length h)) h)[a := (h ! a)
                 \<lparr> gate_list := gate_list (h ! a) @
                     (if ex \<or> expand (h ! a)
                      then map (relocate_entry (length h)) (gate_list (h ! a))
                      else [CircE (a + length h)]) \<rparr>])"
proof -
  let ?n = "length h"
  let ?h1 = "h @ map (relocate ?n) h"
  have ne: "a + ?n \<noteq> a" using assms(1) by (cases h) simp_all
  have la: "a < length ?h1" using assms(1) by simp
  have copy: "?h1 ! (a + ?n) = relocate ?n (h ! a)"
    using assms(1) by (simp add: nth_append)
  have orig: "?h1 ! a = h ! a"
    using assms(1) by (simp add: nth_append)
  have absorb: "add_qubits (involved_qubits (h ! a)) (involved_qubits (h ! a)) = involved_qubits (h ! a)"
    by (rule add_qubits_absorb) simp
  have merge: "merge_qubits_loop ?h1 a (a + ?n) 0 = Some ?h1"
    unfolding merge_qubits_loop_closed[OF ne la] copy orig
    by (simp add: relocate_def absorb list_update_same_conv[OF la] orig)
  have extend: "extend_gates_loop ?h1 a (a + ?n) 0 =
      Some (?h1[a := (h ! a) \<lparr> gate_list := gate_list (h ! a) @
                   map (relocate_entry ?n) (gate_list (h ! a)) \<rparr>])"
    unfolding extend_gates_loop_closed[OF ne la] copy orig
    by (simp add: relocate_def)
  have ex: "expand (?h1 ! (a + ?n)) = expand (h ! a)"
    unfolding copy by (simp add: relocate_def)
  have "append_circuit h a a ex =
      (case merge_qubits_loop ?h1 a (a + ?n) 0 of
         None \<Rightarrow> None
       | Some h2 \<Rightarrow>
           if ex \<or> expand (h2 ! (a + ?n))
           then (case extend_gates_loop h2 a (a + ?n) 0 of
                   None \<Rightarrow> None
                 | Some h3 \<Rightarrow> Some (Inr (), h3))
           else Some (Inr (),
                  h2[a := (h2 ! a) \<lparr> gate_list := gate_list (h2 ! a) @ [CircE (a + ?n)] \<rparr>]))"
    using assms(2) by (simp add: append_circuit_def deepcopy_def)
  also have "\<dots> = Some (Inr (),
             ?h1[a := (h ! a)
                 \<lparr> gate_list := gate_list (h ! a) @
                     (if ex \<or> expand (h ! a)
                      then map (relocate_entry ?n) (gate_list (h ! a))
                      else [CircE (a + ?n)]) \<rparr>])"
    unfolding merge by (simp only: option.case ex extend orig if_distrib split: if_splits) simp
  finally show ?thesis .
qed

subsection \<open>What \<^verbatim>\<open>assign_by_map\<close> writes\<close>

text \<open>
  \<^verbatim>\<open>assign_by_map\<close> only adds objects to the heap and writes to the ones it has added:
  the heap it leaves starts with the heap it was given.  A circuit it returns is one of
  the added ones.
\<close>

lemma append_gate_length: "length (snd (append_gate E h ret e)) = length h"
  by (cases e) (simp_all add: append_gate_def Let_def)

lemma append_gate_take: "take ret (snd (append_gate E h ret e)) = take ret h"
  by (cases e) (simp_all add: append_gate_def Let_def)

lemma assign_frame:
  "length h \<le> length (snd (assign_by_map E d h self qm))
     \<and> take (length h) (snd (assign_by_map E d h self qm)) = h
     \<and> (\<forall>r. fst (assign_by_map E d h self qm) = Inr r
            \<longrightarrow> length h \<le> r \<and> r < length (snd (assign_by_map E d h self qm)))"
  "ret < length h \<longrightarrow>
     length h \<le> length (snd (assign_gates E d h ret gates qm))
     \<and> take ret (snd (assign_gates E d h ret gates qm)) = take ret h
     \<and> (\<forall>r. fst (assign_gates E d h ret gates qm) = Inr r \<longrightarrow> r = ret)"
proof (induction E d h self qm and E d h ret gates qm rule: assign_by_map_assign_gates.induct)
  case (1 E h self qm)
  then show ?case by simp
next
  case (2 E depth h self qm)
  show ?case
  proof (cases "check_qubit_map ((h @ [init_fields (name (h ! self))]) ! self) qm")
    case False
    then show ?thesis by (simp add: Circuit_init_def)
  next
    case True
    let ?h1 = "h @ [init_fields (name (h ! self))]"
    let ?h2 = "?h1[length h := (?h1 ! length h) \<lparr> mapping := Some qm \<rparr>]"
    have eq: "assign_by_map E (Suc depth) h self qm =
                assign_gates E depth ?h2 (length h) (gate_list (?h1 ! self)) qm"
      using True by (simp add: Circuit_init_def)
    have ih: "length ?h2 \<le> length (snd (assign_gates E depth ?h2 (length h) (gate_list (?h1 ! self)) qm))
       \<and> take (length h) (snd (assign_gates E depth ?h2 (length h) (gate_list (?h1 ! self)) qm)) = take (length h) ?h2
       \<and> (\<forall>r. fst (assign_gates E depth ?h2 (length h) (gate_list (?h1 ! self)) qm) = Inr r \<longrightarrow> r = length h)"
      using "2.IH"[of "length h" ?h1] True by (simp add: Circuit_init_def)
    show ?thesis unfolding eq using ih by auto
  qed
next
  case (3 E depth h ret qm)
  then show ?case by simp
next
  case (4 E depth h ret gate gates qm)
  show ?case
  proof
    assume ret: "ret < length h"
    show "length h \<le> length (snd (assign_gates E depth h ret (gate # gates) qm))
     \<and> take ret (snd (assign_gates E depth h ret (gate # gates) qm)) = take ret h
     \<and> (\<forall>r. fst (assign_gates E depth h ret (gate # gates) qm) = Inr r \<longrightarrow> r = ret)"
    proof (cases gate)
      case (GateE g)
      show ?thesis
      proof (cases "gate_assign_by_map E g qm")
        case (Inl e)
        then show ?thesis using GateE by simp
      next
        case (Inr g')
        obtain h' where ag: "append_gate E h ret (GateE g') = (Inr (), h')"
          by (simp add: append_gate_def Let_def)
        have len: "length h' = length h" and tk: "take ret h' = take ret h"
          using append_gate_length[of E h ret "GateE g'"] append_gate_take[of ret E h "GateE g'"]
          by (simp_all add: ag)
        have eq: "assign_gates E depth h ret (gate # gates) qm = assign_gates E depth h' ret gates qm"
          using GateE Inr ag by simp
        have "ret < length h' \<longrightarrow>
            length h' \<le> length (snd (assign_gates E depth h' ret gates qm))
          \<and> take ret (snd (assign_gates E depth h' ret gates qm)) = take ret h'
          \<and> (\<forall>r. fst (assign_gates E depth h' ret gates qm) = Inr r \<longrightarrow> r = ret)"
          using "4.IH"(2)[of "Inr (GateE g')" h "GateE g'" "Inr ()" h' "()"]
            GateE Inr ag by simp
        then show ?thesis
          unfolding eq using ret by (simp add: len tk)
      qed
    next
      case (CircE c)
      let ?res = "assign_by_map E depth h c qm"
      have ih: "length h \<le> length (snd ?res) \<and> take (length h) (snd ?res) = h"
        using "4.IH"(1)[OF CircE] by simp
      have tk: "take ret (snd ?res) = take ret h"
      proof -
        have "take ret (take (length h) (snd ?res)) = take ret h" using ih by simp
        then show ?thesis using ret by (simp add: min_def)
      qed
      show ?thesis
      proof (cases "fst ?res")
        case (Inl e)
        then have "assign_gates E depth h ret (gate # gates) qm = (Inl e, snd ?res)"
          using CircE by (cases ?res) simp
        then show ?thesis using ih tk by simp
      next
        case (Inr r)
        then have "assign_gates E depth h ret (gate # gates) qm = (Inl TypeError, snd ?res)"
          using CircE by (cases ?res) (simp add: append_gate_def)
        then show ?thesis using ih tk by simp
      qed
    qed
  qed
qed

subsection \<open>The sample heap\<close>

lemma sample_heap_eq: "sample_heap = 
  [\<lparr>pyclass = Circuit_class, name = None,
      gate_list = [GateE (Sample_gate ''RX'' (QInt 0) 157), GateE (Sample_gate ''RY'' (QInt 1) 314)],
      involved_qubits = [QInt 0, QInt 1], fragment = False, expand = True, mapping = None\<rparr>,
    \<lparr>pyclass = Fragment_class, name = Some (str_of ''frag''),
      gate_list = [GateE (Sample_gate ''RX'' (QInt 0) 10)],
      involved_qubits = [QInt 0], fragment = True, expand = False, mapping = None\<rparr>,
    \<lparr>pyclass = Circuit_class, name = Some (str_of ''frag''),
      gate_list = [GateE (Sample_gate ''RX'' (QInt 5) 10)],
      involved_qubits = [QInt 5], fragment = False, expand = False,
      mapping = Some [(QInt 0, PInt 5)]\<rparr>]"
  by code_simp

subsection \<open>The loop that the deep copy avoids\<close>

text \<open>
  Without the copy, \<^verbatim>\<open>for gate in new_circuit.gate_list: self.gate_list.append(gate)\<close>
  on one and the same object never ends once there is an entry to read.
\<close>

lemma extend_gates_loop_aliased:
  assumes "extend_gates_loop h self new_circuit i = Some h'"
  shows "\<not> (new_circuit = self \<and> self < length h \<and> i < length (gate_list (h ! self)))"
proof (rule extend_gates_loop.raw_induct[OF _ assms])
  fix loop :: "'a heap \<Rightarrow> addr \<Rightarrow> addr \<Rightarrow> nat \<Rightarrow> 'a heap option"
  fix h self new_circuit i ha
  assume IH: "\<And>h self new_circuit i y. loop h self new_circuit i = Some y \<Longrightarrow>
        \<not> (new_circuit = self \<and> self < length h \<and> i < length (gate_list (h ! self)))"
  assume body: "(if i < length (gate_list (h ! new_circuit))
      then loop (h[self := (h ! self) \<lparr>gate_list := gate_list (h ! self) @ [gate_list (h ! new_circuit) ! i]\<rparr>])
            self new_circuit (Suc i)
      else Some h) = Some ha"
  show "\<not> (new_circuit = self \<and> self < length h \<and> i < length (gate_list (h ! self)))"
  proof
    assume a: "new_circuit = self \<and> self < length h \<and> i < length (gate_list (h ! self))"
    let ?h1 = "h[self := (h ! self) \<lparr> gate_list := gate_list (h ! self) @ [gate_list (h ! self) ! i] \<rparr>]"
    from a body have "loop ?h1 self self (Suc i) = Some ha"
      by (simp split: if_splits)
    from IH[OF this] a show False by simp
  qed
qed

subsection \<open>When \<^verbatim>\<open>assign_by_map\<close> returns, and what \<^verbatim>\<open>assign\<close> writes\<close>



lemma add_qubits_append: "add_qubits (add_qubits ivs xs) ys = add_qubits ivs (xs @ ys)"
  by (induction xs arbitrary: ivs) simp_all

lemma assign_gates_result:
  assumes "list_all (binds E qm) gates" "ret < length h"
  shows "assign_gates E depth h ret gates qm =
           (Inr ret,
            h[ret := (h ! ret)
                \<lparr> gate_list := gate_list (h ! ret) @ map (bound_entry E qm) gates,
                  involved_qubits :=
                    add_qubits (involved_qubits (h ! ret))
                      (concat (map (entry_qubits E) (map (bound_entry E qm) gates))) \<rparr>])"
  using assms
proof (induction gates arbitrary: h)
  case Nil
  then show ?case by (simp add: list_update_same_conv)
next
  case (Cons gate gates)
  from Cons.prems(1) obtain g g' where g: "gate = GateE g" "gate_assign_by_map E g qm = Inr g'"
    by (auto simp: binds_def split: entry.splits sum.splits)
  let ?h' = "h[ret := (h ! ret)
                \<lparr> gate_list := gate_list (h ! ret) @ [GateE g'],
                  involved_qubits :=
                    add_qubits (involved_qubits (h ! ret)) (gate_involved_qubits E g') \<rparr>]"
  have ag: "append_gate E h ret (GateE g') = (Inr (), ?h')"
    using Cons.prems(2) by (simp add: append_gate_def Let_def)
  have step: "assign_gates E depth h ret (gate # gates) qm = assign_gates E depth ?h' ret gates qm"
    using g ag by simp
  have b: "bound_entry E qm gate = GateE g'" "entry_qubits E (GateE g') = gate_involved_qubits E g'"
    using g by (simp_all add: bound_entry_def entry_qubits_def)
  have rest: "list_all (binds E qm) gates" and len: "ret < length ?h'"
    using Cons.prems by simp_all
  show ?case
    unfolding step Cons.IH[OF rest len]
    using Cons.prems(2) by (simp add: b add_qubits_append)
qed

lemma assign_by_map_result:
  assumes "check_qubit_map (h ! self) qm" "self < length h"
    "list_all (binds E qm) (gate_list (h ! self))"
  shows "assign_by_map E (Suc depth) h self qm
           = (Inr (length h), h @ [assigned_circuit E qm (h ! self)])"
proof -
  let ?h1 = "h @ [init_fields (name (h ! self))]"
  let ?h2 = "?h1[length h := (?h1 ! length h) \<lparr> mapping := Some qm \<rparr>]"
  have s: "?h1 ! self = h ! self" using assms(2) by (simp add: nth_append)
  have eq: "assign_by_map E (Suc depth) h self qm =
              assign_gates E depth ?h2 (length h) (gate_list (h ! self)) qm"
    using assms(1) by (simp add: Circuit_init_def s)
  have len: "length h < length ?h2" by simp
  show ?thesis
    unfolding eq assign_gates_result[OF assms(3) len]
    by (simp add: assigned_circuit_def init_fields_def)
qed


lemma assign_take: "take (length h) (snd (assign E depth h self args kwargs)) = h"
  by (simp add: assign_def assign_frame(1) split: sum.splits)

lemma call_assign_take: "take (length h) (snd (call_assign E depth h self args kwargs)) = h"
proof (cases "pyclass (h ! self) = Fragment_class")
  case False
  then show ?thesis by (simp add: call_assign_def assign_take)
next
  case True
  let ?res = "assign E depth h self args kwargs"
  show ?thesis
  proof (cases "fst ?res")
    case (Inl e)
    then have "call_assign E depth h self args kwargs = (Inl e, snd ?res)"
      using True by (cases ?res) (simp add: call_assign_def Fragment_assign_def)
    then show ?thesis by (simp add: assign_take)
  next
    case (Inr ret)
    then have eq: "call_assign E depth h self args kwargs =
        (Inr ret, (snd ?res)[ret := (snd ?res ! ret) \<lparr> expand := False \<rparr>])"
      using True by (cases ?res) (simp add: call_assign_def Fragment_assign_def)
    have "length h \<le> ret"
    proof (cases "if length args > 0 then parse_qubit_map_from_list args
            else parse_qubit_map_from_kwargs E kwargs")
      case (Inl e)
      then show ?thesis using Inr by (simp add: assign_def)
    next
      case (Inr qm)
      then have "?res = assign_by_map E depth h self qm" by (simp add: assign_def)
      then show ?thesis using \<open>fst ?res = Inr ret\<close> assign_frame(1)[of h E depth self qm] by simp
    qed
    then show ?thesis unfolding eq using assign_take[of h E depth self args kwargs] by simp
  qed
qed



subsection \<open>The flags \<^verbatim>\<open>expand\<close> and the classes\<close>

lemma Fragment_assign_expand:
  assumes "fst (Fragment_assign E depth h self args kwargs) = Inr r"
  shows "\<not> expand (snd (Fragment_assign E depth h self args kwargs) ! r)"
proof -
  let ?res = "assign E depth h self args kwargs"
  from assms have r: "fst ?res = Inr r"
    by (cases ?res; cases "fst ?res") (auto simp: Fragment_assign_def)
  then obtain qm where qm: "?res = assign_by_map E depth h self qm"
    by (auto simp: assign_def split: sum.splits)
  have "r < length (snd ?res)"
    using r assign_frame(1)[of h E depth self qm] qm by simp
  then show ?thesis
    using r by (cases ?res) (simp add: Fragment_assign_def)
qed

lemma append_gate_keeps_flags:
  "expand (snd (append_gate E h self e) ! p) = expand (h ! p)
   \<and> pyclass (snd (append_gate E h self e) ! p) = pyclass (h ! p)"
  by (cases e; cases "p = self"; cases "self < length h")
     (simp_all add: append_gate_def Let_def list_update_beyond)

lemma append_keeps_flags:
  assumes "append E h a object kwargs = Some (res, h')" "a < length h" "p < length h"
  shows "expand (h' ! p) = expand (h ! p) \<and> pyclass (h' ! p) = pyclass (h ! p)"
proof (cases object)
  case (Circuit_obj b)
  show ?thesis
  proof (cases "pyclass (h ! b) = Fragment_class")
    case True
    then show ?thesis using assms Circuit_obj by (simp add: append_def append_circuit_def)
  next
    case False
    show ?thesis
    proof (cases "b = a")
      case True
      then show ?thesis
        using assms Circuit_obj False
        by (cases "p = a") (auto simp: append_def append_circuit_self nth_append)
    next
      case ne: False
      then show ?thesis
        using assms Circuit_obj False
        by (cases "p = a") (auto simp: append_def append_circuit_other)
    qed
  qed
next
  case (Gate_obj g)
  then show ?thesis
    using assms append_gate_keeps_flags[of E h a "GateE g" p] by (auto simp: append_def)
next
  case (Other_obj v)
  then show ?thesis using assms by (simp add: append_def)
qed

subsection \<open>The gate builders\<close>

lemma rx_returns_self: "Rx E qubit angle = Inr g \<Longrightarrow> fst (rx E h self qubit angle) = Inr (Some self)"
  by (simp add: rx_def append_gate_def Let_def)

lemma ry_returns_self: "Ry E qubit angle = Inr g \<Longrightarrow> fst (ry E h self qubit angle) = Inr (Some self)"
  by (simp add: ry_def append_gate_def Let_def)

lemma rz_returns_None: "Rz E qubit angle = Inr g \<Longrightarrow> fst (rz E h self qubit angle) = Inr None"
  by (simp add: rz_def append_gate_def Let_def)

lemma builders_append_gate:
  "Rx E qubit angle = Inr g \<Longrightarrow> snd (rx E h self qubit angle) = snd (append_gate E h self (GateE g))"
  "Ry E qubit angle = Inr g \<Longrightarrow> snd (ry E h self qubit angle) = snd (append_gate E h self (GateE g))"
  "Rz E qubit angle = Inr g \<Longrightarrow> snd (rz E h self qubit angle) = snd (append_gate E h self (GateE g))"
  by (simp_all add: rx_def ry_def rz_def append_gate_def Let_def)

subsection \<open>The key parser and the grammar\<close>

lemma is_digit_chars:
  "is_digit I c \<Longrightarrow>
     \<not> Py_ISSPACE I c \<and> c \<noteq> of_char CHR ''+'' \<and> c \<noteq> of_char CHR ''-''
     \<and> c \<noteq> of_char CHR ''_''"
  by (auto simp: is_digit_def digit_of_def Py_ISSPACE_def split: if_splits)

lemma sign_not_space:
  "\<not> Py_ISSPACE I (of_char CHR ''+'')" "\<not> Py_ISSPACE I (of_char CHR ''-'')"
  by (simp_all add: Py_ISSPACE_def)

lemma space_chars: "Py_ISSPACE I c \<Longrightarrow> \<not> is_digit I c \<and> c \<noteq> of_char CHR ''_''"
  by (auto simp: is_digit_def digit_of_def Py_ISSPACE_def split: if_splits)

lemma digit_group_Cons: "digit_group I (c # cs) = (is_digit I c \<and> group_tail I cs)"
  by (cases cs) simp_all

lemma digit_group_hd: "digit_group I body \<Longrightarrow> \<exists>c cs. body = c # cs \<and> is_digit I c"
  by (cases body) (simp_all add: digit_group_Cons)

lemma scan_digits_complete:
  "(if prev_us then digit_group I body else group_tail I body) \<Longrightarrow> stops I rest \<Longrightarrow>
     scan_digits I (body @ rest) prev_us acc
       = Some (acc @ map (digit_val I) (filter (is_digit I) body), rest)"
proof (induction body arbitrary: prev_us acc)
  case Nil
  then show ?case by (cases rest) (auto simp: stops_def split: if_splits)
next
  case (Cons c cs)
  show ?case
  proof (cases "is_digit I c")
    case True
    then have "group_tail I cs"
      using Cons.prems(1) is_digit_chars[of I c] by (auto simp: digit_group_Cons split: if_splits)
    from Cons.IH[of False, simplified, OF this Cons.prems(2)] True show ?thesis by simp
  next
    case False
    then have c: "c = of_char CHR ''_''" "\<not> prev_us" "digit_group I cs"
      using Cons.prems(1) by (auto simp: digit_group_Cons split: if_splits)
    from Cons.IH[of True, simplified, OF c(3) Cons.prems(2)] False c show ?thesis by simp
  qed
qed

lemma scan_digits_sound:
  "scan_digits I cs prev_us acc = Some (ds, rest) \<Longrightarrow>
     \<exists>body. cs = body @ rest \<and> ds = acc @ map (digit_val I) (filter (is_digit I) body)
          \<and> (if prev_us then digit_group I body else group_tail I body) \<and> stops I rest"
proof (induction I cs prev_us acc rule: scan_digits.induct)
  case (1 I prev_us acc)
  then show ?case by (auto simp: stops_def split: if_splits)
next
  case (2 I c cs prev_us acc)
  show ?case
  proof (cases "is_digit I c")
    case True
    then have "scan_digits I cs False (acc @ [digit_val I c]) = Some (ds, rest)"
      using "2.prems" by simp
    from "2.IH"(1)[OF True this] obtain body where
      b: "cs = body @ rest"
         "ds = (acc @ [digit_val I c]) @ map (digit_val I) (filter (is_digit I) body)"
         "group_tail I body" "stops I rest" by auto
    have "digit_group I (c # body)" using True b(3) by (simp add: digit_group_Cons)
    moreover have "group_tail I (c # body)"
      using True b(3) is_digit_chars[of I c] by (simp add: digit_group_Cons)
    ultimately show ?thesis
      using b True by (intro exI[of _ "c # body"]) simp
  next
    case False
    show ?thesis
    proof (cases "c = of_char CHR ''_''")
      case True
      then have p: "\<not> prev_us" and s: "scan_digits I cs True acc = Some (ds, rest)"
        using "2.prems" False by (auto split: if_splits)
      from "2.IH"(2)[OF False True p s] obtain body where
        b: "cs = body @ rest" "ds = acc @ map (digit_val I) (filter (is_digit I) body)"
           "digit_group I body" "stops I rest" by auto
      show ?thesis
        using b True False p by (intro exI[of _ "c # body"]) simp
    next
      case nu: False
      then have "\<not> prev_us" "ds = acc" "rest = c # cs"
        using "2.prems" False by (auto split: if_splits)
      then show ?thesis
        using False nu by (intro exI[of _ "[]"]) (simp add: stops_def)
    qed
  qed
qed

lemma dropWhile_spaces:
  "list_all (Py_ISSPACE I) l \<Longrightarrow> dropWhile (Py_ISSPACE I) (l @ xs) = dropWhile (Py_ISSPACE I) xs"
  by (induction l) simp_all

lemma spaces_stop: "list_all (Py_ISSPACE I) r \<Longrightarrow> stops I r"
  by (cases r) (auto simp: stops_def dest: space_chars)

lemma py_int_complete:
  assumes "int_literal I s n"
  shows "py_int I s = Inr n"
proof -
  from assms obtain l sg body r where
    d: "s = l @ sg @ body @ r" "list_all (Py_ISSPACE I) l" "list_all (Py_ISSPACE I) r"
       "sg = [] \<or> sg = str_of ''+'' \<or> sg = str_of ''-''" "digit_group I body"
       "int_max_str_digits I = 0 \<or> length (filter (is_digit I) body) \<le> int_max_str_digits I"
       "n = (if sg = str_of ''-'' then - int (group_value I body) else int (group_value I body))"
    unfolding int_literal_def by blast
  from d(5) obtain c cs where body: "body = c # cs" "is_digit I c"
    using digit_group_hd by blast
  have s1: "dropWhile (Py_ISSPACE I) s = sg @ body @ r"
    using d(4) body is_digit_chars[of I c] sign_not_space[of I]
    unfolding d(1) dropWhile_spaces[OF d(2)] by (auto simp: str_of_def)
  have scan: "scan_digits I (body @ r) False []
                = Some (map (digit_val I) (filter (is_digit I) body), r)"
  proof -
    have "group_tail I body"
      using d(5) body is_digit_chars[of I c] by simp
    then have "if False then digit_group I body else group_tail I body" by simp
    from scan_digits_complete[OF this spaces_stop[OF d(3)], of "[]"] show ?thesis by simp
  qed
  have ne: "map (digit_val I) (filter (is_digit I) body) \<noteq> []"
    using body by simp
  have r: "dropWhile (Py_ISSPACE I) r = []" using d(3) by (simp add: list_all_iff)
  show ?thesis
    using d(4)
  proof (elim disjE)
    assume "sg = []"
    then show ?thesis
      using s1 scan ne r d(6,7) body is_digit_chars[of I c]
      by (auto simp: py_int_def Let_def group_value_def str_of_def)
  next
    assume "sg = str_of ''+''"
    then show ?thesis
      using s1 scan ne r d(6,7) body is_digit_chars[of I c]
      by (auto simp: py_int_def Let_def group_value_def str_of_def)
  next
    assume "sg = str_of ''-''"
    then show ?thesis
      using s1 scan ne r d(6,7) body is_digit_chars[of I c]
      by (auto simp: py_int_def Let_def group_value_def str_of_def)
  qed
qed

lemma py_int_sound:
  assumes "py_int I s = Inr n"
  shows "int_literal I s n"
proof -
  let ?l = "takeWhile (Py_ISSPACE I) s"
  define s1 where "s1 = dropWhile (Py_ISSPACE I) s"
  define sg where
    "sg = (case s1 of
             c # r \<Rightarrow> if c = of_char CHR ''+'' \<or> c = of_char CHR ''-'' then [c] else []
           | [] \<Rightarrow> [])"
  define s2 where
    "s2 = (case s1 of
             c # r \<Rightarrow> if c = of_char CHR ''+'' \<or> c = of_char CHR ''-'' then r else s1
           | [] \<Rightarrow> [])"
  have "sg @ s2 = s1"
    by (cases s1) (simp_all add: sg_def s2_def)
  then have split: "s = ?l @ sg @ s2"
    by (simp add: s1_def)
  have sgs: "sg = [] \<or> sg = str_of ''+'' \<or> sg = str_of ''-''"
    by (cases s1) (auto simp: sg_def str_of_def)
  have neg: "(case s1 of c # r \<Rightarrow> c = of_char CHR ''-'' | [] \<Rightarrow> False) = (sg = str_of ''-'')"
    by (cases s1) (auto simp: sg_def str_of_def)
  have l: "list_all (Py_ISSPACE I) ?l"
    by (simp add: list_all_iff) (meson set_takeWhileD)
  have unfolded: "py_int I s =
     (if (case s2 of c # r \<Rightarrow> c = of_char CHR ''_'' | [] \<Rightarrow> False) then Inl ValueError
         else case scan_digits I s2 False [] of
                None \<Rightarrow> Inl ValueError
              | Some (ds, rest) \<Rightarrow>
                  if ds = [] then Inl ValueError
                  else if dropWhile (Py_ISSPACE I) rest \<noteq> [] then Inl ValueError
                  else if 0 < int_max_str_digits I \<and> int_max_str_digits I < length ds
                  then Inl ValueError
                  else Inr (if sg = str_of ''-'' then - int (digits_value ds)
                            else int (digits_value ds)))"
    unfolding py_int_def Let_def s1_def[symmetric] s2_def[symmetric] neg ..
  from assms have nus: "\<not> (case s2 of c # r \<Rightarrow> c = of_char CHR ''_'' | [] \<Rightarrow> False)"
    unfolding unfolded by (auto split: if_splits)
  from assms obtain ds rest where
    scan: "scan_digits I s2 False [] = Some (ds, rest)"
    and ok: "ds \<noteq> []" "dropWhile (Py_ISSPACE I) rest = []"
            "\<not> (0 < int_max_str_digits I \<and> int_max_str_digits I < length ds)"
    and n: "n = (if sg = str_of ''-'' then - int (digits_value ds) else int (digits_value ds))"
    unfolding unfolded
    by (auto split: if_splits option.splits)
  from scan_digits_sound[OF scan] obtain body where
    b: "s2 = body @ rest" "ds = map (digit_val I) (filter (is_digit I) body)"
       "group_tail I body"
    by auto
  have "body \<noteq> []" using ok(1) b(2) by auto
  then obtain c cs where body: "body = c # cs" by (cases body) auto
  have "c \<noteq> of_char CHR ''_''" using nus b(1) body by simp
  then have g: "digit_group I body" using b(3) body by simp
  have r: "list_all (Py_ISSPACE I) rest" using ok(2) by (simp add: list_all_iff)
  have lim: "int_max_str_digits I = 0
             \<or> length (filter (is_digit I) body) \<le> int_max_str_digits I"
    using ok(3) b(2) by auto
  show ?thesis
    unfolding int_literal_def
    using split b(1) l r sgs g lim n b(2)
    by (intro exI[of _ ?l] exI[of _ sg] exI[of _ body] exI[of _ rest])
       (simp add: group_value_def)
qed

lemma py_int_iff: "(py_int I s = Inr n) = int_literal I s n"
  using py_int_sound py_int_complete by blast

lemma check_qubit_key_total: "\<exists>r. check_qubit_key I key = Inr r"
  by (auto simp: check_qubit_key_def split: sum.splits)

lemma check_qubit_key_iff:
  "(check_qubit_key I key = Inr (Some n))
     = (\<exists>rest. key = of_char CHR ''q'' # rest \<and> int_literal I rest n)"
proof (cases key)
  case Nil
  then show ?thesis by (simp add: check_qubit_key_def startswith_q_def)
next
  case (Cons c rest)
  then show ?thesis
    by (auto simp: check_qubit_key_def startswith_q_def py_int_iff[symmetric] split: sum.splits)
qed

lemma digits_value_snoc: "digits_value (ds @ [d]) = 10 * digits_value ds + d"
  by (simp add: digits_value_def)

lemma decimal_digit:
  "k < 10 \<Longrightarrow> is_digit I (48 + k) \<and> digit_val I (48 + k) = k"
  by (simp add: is_digit_def digit_val_def digit_of_def)

lemma decimal_digits_ok:
  "list_all (is_digit I) (decimal_digits n) \<and> decimal_digits n \<noteq> []
   \<and> digits_value (map (digit_val I) (decimal_digits n)) = n"
proof (induction n rule: decimal_digits.induct)
  case (1 n)
  show ?case
  proof (cases "n < 10")
    case True
    then show ?thesis
      using decimal_digit[of n I]
      by (subst (1 2 3) decimal_digits.simps) (simp add: digits_value_def)
  next
    case False
    have m: "n mod 10 < 10" by simp
    from "1.IH"[OF False] False decimal_digit[OF m, of I] show ?thesis
      by (subst (1 2 3) decimal_digits.simps) (simp add: digits_value_snoc)
  qed
qed

lemma all_digits_group: "list_all (is_digit I) ds \<Longrightarrow> ds \<noteq> [] \<Longrightarrow> digit_group I ds"
proof (induction I ds rule: digit_group.induct)
  case (1 I)
  then show ?case by simp
next
  case (2 I c)
  then show ?case by simp
next
  case (3 I c d cs)
  then show ?case using is_digit_chars[of I d] by simp
qed

lemma plain_digits_literal:
  assumes "list_all (is_digit I) ds" "ds \<noteq> []"
    "int_max_str_digits I = 0 \<or> length ds \<le> int_max_str_digits I"
  shows "int_literal I ds (int (digits_value (map (digit_val I) ds)))"
proof -
  have f: "filter (is_digit I) ds = ds" using assms(1) by (simp add: list_all_iff)
  show ?thesis
    unfolding int_literal_def
    using assms all_digits_group[OF assms(1,2)] f
    by (intro exI[of _ "[]"] exI[of _ ds]) (simp add: group_value_def str_of_def)
qed

section \<open>The claims\<close>

subsection \<open>C1: \<^verbatim>\<open>assign\<close> leaves the circuit as it was\<close>

text \<open>
  Claim C1, as stated: for every circuit \<open>c\<close> and every qubit map \<open>m\<close> whose keys cover
  \<^verbatim>\<open>c.involved_qubits\<close>, \<^verbatim>\<open>c.assign(m)\<close> returns a new circuit and does not change \<open>c\<close>.
  \<^verbatim>\<open>assign\<close> has no reading of a dict: a positional argument that is not a list is taken
  as the target of position 0.  For the circuit at address 0 of \<^const>\<open>sample_heap\<close>, which
  involves the qubits 0 and 1, and the map \<^verbatim>\<open>{0: 5, 1: 6}\<close>, which covers them, the call
  builds the map \<^verbatim>\<open>{0: {0: 5, 1: 6}}\<close> and raises the error of the coverage check.
\<close>

theorem C1_counterexample:
  "check_qubit_map (sample_heap ! 0) [(QInt 0, PInt 5), (QInt 1, PInt 6)]
   \<and> fst (call_assign sample_env 1000 sample_heap 0
             [PDict [(PInt 0, PInt 5), (PInt 1, PInt 6)]] [])
       = Inl (RuntimeError
               (NotCovered [] [(QInt 0, PDict [(PInt 0, PInt 5), (PInt 1, PInt 6)])]))"
  by (simp add: sample_heap_eq check_qubit_map_def call_assign_def assign_def
      parse_qubit_map_from_list_def Circuit_init_def init_fields_def numeral_eq_Suc)

text \<open>
  Claim C1, amended: for every circuit \<open>c\<close> and every qubit map \<open>m\<close> whose keys cover
  \<^verbatim>\<open>c.involved_qubits\<close>, \<^verbatim>\<open>c.assign_by_map(m)\<close>, and \<^verbatim>\<open>c.assign\<close> with any arguments,
  leave \<open>c\<close> and every other circuit that exists before the call as they were (gate list,
  involved qubits and all other fields), whether they return or raise; and they return a
  new circuit when the stack has room for the call, the gate list of \<open>c\<close> holds only
  gates whose own \<^verbatim>\<open>assign_by_map(m)\<close> returns and, for \<^verbatim>\<open>assign\<close>, the arguments are
  the positional or keyword form of \<open>m\<close>.  The heap after a call starts with the heap
  before it.  When the call returns, that heap is the heap before it and one more object,
  at the address returned: the circuit \<^const>\<open>assigned_circuit\<close> describes, a plain
  \<^verbatim>\<open>Circuit\<close> with the name of \<open>c\<close>, the map, the bound gates and their qubits (and, when
  \<open>c\<close> is a \<^verbatim>\<open>Fragment\<close> and the call is \<^verbatim>\<open>assign\<close>, the flag \<^verbatim>\<open>expand\<close> set to False).
\<close>

theorem C1_assign_frame:
  assumes "self < length h" "check_qubit_map (h ! self) qm"
  shows "take (length h) (snd (assign_by_map E depth h self qm)) = h
       \<and> take (length h) (snd (call_assign E depth h self args kwargs)) = h
       \<and> (0 < depth \<and> list_all (binds E qm) (gate_list (h ! self)) \<longrightarrow>
            assign_by_map E depth h self qm
              = (Inr (length h), h @ [assigned_circuit E qm (h ! self)])
            \<and> ((if length args > 0 then parse_qubit_map_from_list args
                 else parse_qubit_map_from_kwargs E kwargs) = Inr qm \<longrightarrow>
               call_assign E depth h self args kwargs
                 = (Inr (length h),
                    h @ [(assigned_circuit E qm (h ! self))
                           \<lparr> expand := pyclass (h ! self) \<noteq> Fragment_class \<rparr>])))"
proof (intro conjI impI)
  show "take (length h) (snd (assign_by_map E depth h self qm)) = h"
    by (simp add: assign_frame(1))
  show "take (length h) (snd (call_assign E depth h self args kwargs)) = h"
    by (rule call_assign_take)
next
  assume a: "0 < depth \<and> list_all (binds E qm) (gate_list (h ! self))"
  then obtain d where d: "depth = Suc d" by (cases depth) auto
  show r: "assign_by_map E depth h self qm
             = (Inr (length h), h @ [assigned_circuit E qm (h ! self)])"
    unfolding d using assms a by (simp only: assign_by_map_result)
  assume "(if length args > 0 then parse_qubit_map_from_list args
                 else parse_qubit_map_from_kwargs E kwargs) = Inr qm"
  then have e: "assign E depth h self args kwargs = assign_by_map E depth h self qm"
    by (simp add: assign_def)
  have x: "expand (assigned_circuit E qm (h ! self))"
    by (simp add: assigned_circuit_def init_fields_def)
  show "call_assign E depth h self args kwargs
          = (Inr (length h),
             h @ [(assigned_circuit E qm (h ! self))
                    \<lparr> expand := pyclass (h ! self) \<noteq> Fragment_class \<rparr>])"
  proof (cases "pyclass (h ! self) = Fragment_class")
    case True
    then show ?thesis
      by (simp add: call_assign_def Fragment_assign_def e r)
  next
    case False
    then show ?thesis
      using x by (simp add: call_assign_def e r)
  qed
qed

theorem C1_assign_frame_witness:
  "0 < length sample_heap
   \<and> check_qubit_map (sample_heap ! 0) [(QInt 0, PInt 5), (QInt 1, PInt 6)]
   \<and> take 3 (snd (assign_by_map sample_env 1000 sample_heap 0
                    [(QInt 0, PInt 5), (QInt 1, PInt 6)])) = sample_heap
   \<and> take 3 (snd (call_assign sample_env 1000 sample_heap 0 [PInt 5, PInt 6] [])) = sample_heap
   \<and> assign_by_map sample_env 1000 sample_heap 0 [(QInt 0, PInt 5), (QInt 1, PInt 6)]
       = (Inr 3,
          sample_heap @
          [\<lparr>pyclass = Circuit_class, name = None,
             gate_list = [GateE (Sample_gate ''RX'' (QInt 5) 157),
                          GateE (Sample_gate ''RY'' (QInt 6) 314)],
             involved_qubits = [QInt 5, QInt 6], fragment = False, expand = True,
             mapping = Some [(QInt 0, PInt 5), (QInt 1, PInt 6)]\<rparr>])
   \<and> call_assign sample_env 1000 sample_heap 0 [PInt 5, PInt 6] []
       = (Inr 3,
          sample_heap @
          [\<lparr>pyclass = Circuit_class, name = None,
             gate_list = [GateE (Sample_gate ''RX'' (QInt 5) 157),
                          GateE (Sample_gate ''RY'' (QInt 6) 314)],
             involved_qubits = [QInt 5, QInt 6], fragment = False, expand = True,
             mapping = Some [(QInt 0, PInt 5), (QInt 1, PInt 6)]\<rparr>])"
proof -
  let ?qm = "[(QInt 0, PInt 5), (QInt 1, PInt 6)]"
  have len: "length sample_heap = 3" by (simp add: sample_heap_eq)
  have h1: "0 < length sample_heap" by (simp add: len)
  have h2: "check_qubit_map (sample_heap ! 0) ?qm"
    by (simp add: sample_heap_eq check_qubit_map_def)
  have h3: "list_all (binds sample_env ?qm) (gate_list (sample_heap ! 0))"
    by (simp add: sample_heap_eq binds_def sample_env_def sample_gate_def)
  have h4: "(if length [PInt 5, PInt 6] > 0 then parse_qubit_map_from_list [PInt 5, PInt 6]
             else parse_qubit_map_from_kwargs sample_env []) = Inr ?qm"
    by (simp add: parse_qubit_map_from_list_def)
  have c: "pyclass (sample_heap ! 0) \<noteq> Fragment_class"
    by (simp add: sample_heap_eq)
  have a: "assigned_circuit sample_env ?qm (sample_heap ! 0) =
      \<lparr>pyclass = Circuit_class, name = None,
         gate_list = [GateE (Sample_gate ''RX'' (QInt 5) 157),
                      GateE (Sample_gate ''RY'' (QInt 6) 314)],
         involved_qubits = [QInt 5, QInt 6], fragment = False, expand = True,
         mapping = Some ?qm\<rparr>"
    by (simp add: sample_heap_eq assigned_circuit_def init_fields_def bound_entry_def
        entry_qubits_def sample_env_def sample_gate_def)
  show ?thesis
    using C1_assign_frame[OF h1 h2, of sample_env 1000 "[PInt 5, PInt 6]" "[]"] h2 h3 h4 c
    by (simp add: len a)
qed

subsection \<open>C2: flattening or nesting on \<^verbatim>\<open>append\<close>\<close>

text \<open>
  Claim C2: for every circuit \<open>A\<close> and circuit \<open>B\<close> that is not a \<^verbatim>\<open>Fragment\<close>,
  \<^verbatim>\<open>A.append(B, ...)\<close> returns without raising; if the \<^verbatim>\<open>expand\<close> argument (False when
  omitted) is true or \<^verbatim>\<open>B.expand\<close> is true, each entry of the gate list of \<open>B\<close> is
  appended to \<^verbatim>\<open>A.gate_list\<close>, in order; otherwise \<open>B\<close> is appended as one nested entry.
  In particular, when \<^verbatim>\<open>B.expand\<close> is false, \<^verbatim>\<open>expand=False\<close> nests and \<^verbatim>\<open>expand=True\<close>
  flattens.  For \<open>B\<close> another object than \<open>A\<close> the entries are those of \<open>B\<close> and the nested
  entry refers to \<open>B\<close>, which the call leaves as it was.  When \<open>B\<close> is \<open>A\<close> itself the
  method works, as the spec says, on the deep copy of \<open>A\<close> it takes first: the copy is at
  address \<open>a + length h\<close>, its gates are the gates of \<open>A\<close> and its nested circuits are the
  copies of those of \<open>A\<close>.
\<close>

theorem C2_append_circuit:
  assumes "a < length h" "b < length h" "pyclass (h ! b) \<noteq> Fragment_class"
  shows "\<exists>h'. append E h a (Circuit_obj b) kwargs = Some (Inr (), h')
           \<and> gate_list (h' ! a) = gate_list (h ! a) @
                (if kwargs_expand kwargs \<or> expand (h ! b)
                 then (if b = a then map (relocate_entry (length h)) (gate_list (h ! b))
                       else gate_list (h ! b))
                 else [CircE (if b = a then a + length h else b)])
           \<and> (if b = a then h' ! (a + length h) = relocate (length h) (h ! a)
               else h' ! b = h ! b)"
proof (cases "b = a")
  case True
  have "a + length h \<noteq> a" using assms(1) by (cases h) simp_all
  then show ?thesis
    using True assms by (simp add: append_def append_circuit_self nth_append)
next
  case False
  then show ?thesis
    using assms by (simp add: append_def append_circuit_other)
qed

theorem C2_append_circuit_witness:
  "0 < length sample_heap \<and> 2 < length sample_heap
   \<and> pyclass (sample_heap ! 2) \<noteq> Fragment_class
   \<and> (\<exists>h'. append sample_env sample_heap 0 (Circuit_obj 2) [(str_of ''expand'', PBool False)]
              = Some (Inr (), h')
            \<and> gate_list (h' ! 0) =
                [GateE (Sample_gate ''RX'' (QInt 0) 157), GateE (Sample_gate ''RY'' (QInt 1) 314),
                 CircE 2])
   \<and> (\<exists>h'. append sample_env sample_heap 0 (Circuit_obj 2) [(str_of ''expand'', PBool True)]
              = Some (Inr (), h')
            \<and> gate_list (h' ! 0) =
                [GateE (Sample_gate ''RX'' (QInt 0) 157), GateE (Sample_gate ''RY'' (QInt 1) 314),
                 GateE (Sample_gate ''RX'' (QInt 5) 10)])"
proof -
  have h1: "0 < length sample_heap" and h2: "2 < length sample_heap"
    and h3: "pyclass (sample_heap ! 2) \<noteq> Fragment_class"
    by (simp_all add: sample_heap_eq)
  show ?thesis
    using C2_append_circuit[OF h1 h2 h3, of sample_env "[(str_of ''expand'', PBool False)]"]
      C2_append_circuit[OF h1 h2 h3, of sample_env "[(str_of ''expand'', PBool True)]"]
    by (auto simp add: sample_heap_eq kwargs_expand_def str_of_def)
qed

subsection \<open>C3: the error of an incomplete map\<close>

text \<open>
  Claim C3: for every circuit \<open>c\<close> and qubit map \<open>m\<close> that misses a qubit of
  \<^verbatim>\<open>c.involved_qubits\<close>, \<^verbatim>\<open>c.assign_by_map(m)\<close> raises before it appends any gate, and the
  message lists the expected qubits, those of \<open>c\<close>, against the given map.  The code does
  raise first, but its message prints \<^verbatim>\<open>ret.involved_qubits\<close>, the list of the circuit it
  has just made, which is empty: for the circuit at address 0 of \<^const>\<open>sample_heap\<close>, which
  involves the qubits 0 and 1, and the map \<^verbatim>\<open>{0: 5}\<close>, the message says
  \<^verbatim>\<open>Expect: [], Get: {0: 5}\<close>, and the heap has gained one empty circuit and nothing else.
\<close>

theorem C3_message_expects_nothing:
  "involved_qubits (sample_heap ! 0) = [QInt 0, QInt 1]
   \<and> assign_by_map sample_env 1000 sample_heap 0 [(QInt 0, PInt 5)]
       = (Inl (RuntimeError (NotCovered [] [(QInt 0, PInt 5)])),
          sample_heap @ [init_fields None])"
  by (simp add: sample_heap_eq check_qubit_map_def Circuit_init_def init_fields_def
      numeral_eq_Suc)

subsection \<open>C4: the keys the parser accepts\<close>

text \<open>
  Claim C4, as stated: the parser returns \<open>n\<close> exactly when the key is the letter
  \<^verbatim>\<open>q\<close> followed by the decimal digits of a non-negative integer \<open>n\<close> and nothing else,
  and \<^verbatim>\<open>None\<close> for every other string.  The code hands the rest of the key to
  \<^verbatim>\<open>int\<close>, which also reads a sign and white space: \<^verbatim>\<open>"q-3"\<close> yields \<open>-3\<close> and
  \<^verbatim>\<open>"q 7"\<close> yields 7, not \<^verbatim>\<open>None\<close>.
\<close>

theorem C4_counterexample:
  "check_qubit_key sample_interp (str_of ''q-3'') = Inr (Some (- 3))
   \<and> check_qubit_key sample_interp (str_of ''q 7'') = Inr (Some 7)"
  by (simp add: check_qubit_key_def startswith_q_def py_int_def Py_ISSPACE_def is_digit_def
      digit_of_def digit_val_def digits_value_def str_of_def sample_interp_def)

text \<open>
  Claim C4, amended: for every string key, whatever its code points, and every
  interpreter (digit limit and Unicode tables), the parser raises nothing; it returns the
  integer \<open>n\<close> exactly when the key is the letter \<^verbatim>\<open>q\<close> followed by a string that
  \<^verbatim>\<open>int\<close> reads as \<open>n\<close>, that is optional white space, an optional sign, decimal digits
  with at most one underscore between two of them, optional white space (white space
  and digits being the ASCII ones and those of Unicode), and no more digits than the
  interpreter's limit; and \<^verbatim>\<open>None\<close> for every other string.  In particular \<^verbatim>\<open>q\<close>
  followed by the decimal digits of a non-negative integer \<open>n\<close> (within the limit) yields
  \<open>n\<close>, \<^verbatim>\<open>"q7"\<close> yields 7, and \<^verbatim>\<open>"q"\<close>, \<^verbatim>\<open>"qx"\<close>, \<^verbatim>\<open>"qa"\<close>, \<^verbatim>\<open>"x7"\<close>, \<^verbatim>\<open>"3q"\<close>
  yield \<^verbatim>\<open>None\<close>.  (Since every result is \<open>Inr\<close> of \<^verbatim>\<open>None\<close> or of an integer, ``not
  \<open>Inr (Some n)\<close> for any \<open>n\<close>'' is ``\<^verbatim>\<open>None\<close>''.)
\<close>

theorem C4_check_qubit_key:
  "(\<exists>r. check_qubit_key I key = Inr r)
   \<and> ((check_qubit_key I key = Inr (Some n))
        = (\<exists>rest. key = of_char CHR ''q'' # rest \<and> int_literal I rest n))
   \<and> (int_max_str_digits I = 0 \<or> length (decimal_digits m) \<le> int_max_str_digits I \<longrightarrow>
        check_qubit_key I (of_char CHR ''q'' # decimal_digits m) = Inr (Some (int m)))
   \<and> check_qubit_key I (str_of ''q7'') = Inr (Some 7)
   \<and> check_qubit_key I (str_of ''q'') = Inr None
   \<and> check_qubit_key I (str_of ''qx'') = Inr None
   \<and> check_qubit_key I (str_of ''qa'') = Inr None
   \<and> check_qubit_key I (str_of ''x7'') = Inr None
   \<and> check_qubit_key I (str_of ''3q'') = Inr None"
proof (intro conjI impI)
  show "\<exists>r. check_qubit_key I key = Inr r"
    by (rule check_qubit_key_total)
  show "(check_qubit_key I key = Inr (Some n))
          = (\<exists>rest. key = of_char CHR ''q'' # rest \<and> int_literal I rest n)"
    by (rule check_qubit_key_iff)
  show "check_qubit_key I (str_of ''q7'') = Inr (Some 7)"
    by (cases "int_max_str_digits I = 0")
       (simp_all add: check_qubit_key_def startswith_q_def py_int_def Py_ISSPACE_def
          is_digit_def digit_of_def digit_val_def digits_value_def str_of_def)
  show "check_qubit_key I (str_of ''q'') = Inr None"
    by (simp add: check_qubit_key_def startswith_q_def py_int_def str_of_def)
  show "check_qubit_key I (str_of ''qx'') = Inr None"
    by (simp add: check_qubit_key_def startswith_q_def py_int_def Py_ISSPACE_def
        is_digit_def digit_of_def str_of_def)
  show "check_qubit_key I (str_of ''qa'') = Inr None"
    by (simp add: check_qubit_key_def startswith_q_def py_int_def Py_ISSPACE_def
        is_digit_def digit_of_def str_of_def)
  show "check_qubit_key I (str_of ''x7'') = Inr None"
    by (simp add: check_qubit_key_def startswith_q_def str_of_def)
  show "check_qubit_key I (str_of ''3q'') = Inr None"
    by (simp add: check_qubit_key_def startswith_q_def str_of_def)
next
  assume lim: "int_max_str_digits I = 0 \<or> length (decimal_digits m) \<le> int_max_str_digits I"
  have d: "list_all (is_digit I) (decimal_digits m)" "decimal_digits m \<noteq> []"
    "digits_value (map (digit_val I) (decimal_digits m)) = m"
    using decimal_digits_ok[of I m] by simp_all
  have "int_literal I (decimal_digits m) (int m)"
    using plain_digits_literal[OF d(1,2) lim] d(3) by simp
  then show "check_qubit_key I (of_char CHR ''q'' # decimal_digits m) = Inr (Some (int m))"
    by (simp add: check_qubit_key_iff)
qed

theorem C4_check_qubit_key_witness:
  "decimal_digits 42 = str_of ''42''
   \<and> length (decimal_digits 42) \<le> int_max_str_digits sample_interp
   \<and> check_qubit_key sample_interp (str_of ''q42'') = Inr (Some 42)
   \<and> (\<exists>rest. str_of ''q-3'' = of_char CHR ''q'' # rest \<and> int_literal sample_interp rest (- 3))"
proof -
  have d: "decimal_digits 42 = str_of ''42''" by code_simp
  have l: "int_max_str_digits sample_interp = 4300" by (simp add: sample_interp_def)
  have c: "check_qubit_key sample_interp (str_of ''q-3'') = Inr (Some (- 3))"
    by (simp add: check_qubit_key_def startswith_q_def py_int_def Py_ISSPACE_def is_digit_def
        digit_of_def digit_val_def digits_value_def str_of_def sample_interp_def)
  show ?thesis
    using C4_check_qubit_key[of sample_interp "str_of ''q-3''" "- 3" 42] c
    by (simp add: d l str_of_def)
qed

text \<open>
  Digits and white space beyond ASCII are read too: with the Arabic-Indic digit three
  (U+0663) after the \<^verbatim>\<open>q\<close> the key yields 3, also between two no-break spaces (U+00A0).
\<close>

lemma check_qubit_key_unicode:
  "check_qubit_key sample_interp [of_char CHR ''q'', 1635] = Inr (Some 3)
   \<and> check_qubit_key sample_interp [of_char CHR ''q'', 160, 1635, 160] = Inr (Some 3)"
  by (simp add: check_qubit_key_def startswith_q_def py_int_def Py_ISSPACE_def is_digit_def
      digit_of_def digit_val_def digits_value_def sample_interp_def)

subsection \<open>C5: the overflow check on the two lists\<close>

text \<open>
  Claim C5, as stated: \<open>check_qubit_overflow([0,1,2], 3)\<close> returns False and
  \<open>check_qubit_overflow([0,1], 3)\<close> returns True.  The first half fails on the code:
  no element of \<open>[0,1,2]\<close> is \<open>\<ge> 3\<close>, so the loop runs to its end and the function
  returns True.
\<close>

theorem C5_counterexample:
  "\<not> (check_qubit_overflow [0, 1, 2] 3 = False \<and> check_qubit_overflow [0, 1] 3 = True)"
  by simp

text \<open>
  Claim C5, amended: \<open>check_qubit_overflow([0,1,2], 3)\<close> returns True (every index,
  2 included, is below 3) and \<open>check_qubit_overflow([0,1], 3)\<close> returns True.
\<close>

theorem C5_overflow_examples:
  "check_qubit_overflow [0, 1, 2] 3 = True \<and> check_qubit_overflow [0, 1] 3 = True"
  by simp

subsection \<open>C6: appending a circuit to itself\<close>

text \<open>
  Claim C6: for every circuit \<open>A\<close> that is not a \<^verbatim>\<open>Fragment\<close>, \<^verbatim>\<open>A.append(A)\<close> ends
  without raising, and afterwards \<^verbatim>\<open>A.involved_qubits\<close> is what it was before the call.
  The result \<open>Some\<close> says that both loops end, \<open>Inr\<close> that nothing was raised.  (The loops
  run on the deep copy; \<open>extend_gates_loop_aliased\<close> shows that the second one would not
  end on \<open>A\<close> itself.)
\<close>

theorem C6_self_append:
  assumes "a < length h" "pyclass (h ! a) \<noteq> Fragment_class"
  shows "\<exists>h'. append E h a (Circuit_obj a) kwargs = Some (Inr (), h')
              \<and> involved_qubits (h' ! a) = involved_qubits (h ! a)"
  using assms by (simp add: append_def append_circuit_self)

theorem C6_self_append_witness:
  "0 < length sample_heap \<and> pyclass (sample_heap ! 0) \<noteq> Fragment_class
   \<and> (\<exists>h'. append sample_env sample_heap 0 (Circuit_obj 0) [] = Some (Inr (), h')
            \<and> involved_qubits (h' ! 0) = [QInt 0, QInt 1])"
proof -
  have h1: "0 < length sample_heap" and h2: "pyclass (sample_heap ! 0) \<noteq> Fragment_class"
    by (simp_all add: sample_heap_eq)
  show ?thesis
    using C6_self_append[OF h1 h2, of sample_env "[]"] by (auto simp add: sample_heap_eq)
qed

subsection \<open>C7: a \<^verbatim>\<open>Fragment\<close> cannot be appended\<close>

text \<open>
  Claim C7: for every circuit \<open>A\<close> and every object \<open>f\<close> of class \<^verbatim>\<open>Fragment\<close>,
  \<^verbatim>\<open>A.append(f)\<close>, with any \<^verbatim>\<open>expand\<close> argument, raises, and the gate list and the
  involved qubits of \<open>A\<close> are unchanged: the call leaves the whole heap as it was.
\<close>

theorem C7_append_fragment_raises:
  "pyclass (h ! f) = Fragment_class \<Longrightarrow>
     append E h a (Circuit_obj f) kwargs = Some (Inl (RuntimeError FragmentAppend), h)"
  by (simp add: append_def append_circuit_def)

theorem C7_append_fragment_raises_witness:
  "pyclass (sample_heap ! 1) = Fragment_class
   \<and> append sample_env sample_heap 0 (Circuit_obj 1) [(str_of ''expand'', PBool True)]
       = Some (Inl (RuntimeError FragmentAppend), sample_heap)"
proof -
  have h1: "pyclass (sample_heap ! 1) = Fragment_class"
    by (simp add: sample_heap_eq)
  show ?thesis
    using C7_append_fragment_raises[OF h1, of sample_env 0 "[(str_of ''expand'', PBool True)]"] h1
    by simp
qed

subsection \<open>C8: what the gate builders return\<close>

text \<open>
  Claim C8: each of \<^verbatim>\<open>rx\<close>, \<^verbatim>\<open>ry\<close> and \<^verbatim>\<open>rz\<close> appends its gate and returns
  \<^verbatim>\<open>self\<close>.  \<^verbatim>\<open>rx\<close> and \<^verbatim>\<open>ry\<close> do (\<open>rx_returns_self\<close>, \<open>ry_returns_self\<close>); \<^verbatim>\<open>rz\<close>
  appends the gate but has no \<^verbatim>\<open>return\<close>, against its docstring
  (\<^verbatim>\<open>Returns: Circuit: self\<close>), so it yields \<^verbatim>\<open>None\<close>: on a new circuit,
  \<^verbatim>\<open>Circuit().rz(0, 157)\<close> appends the gate and evaluates to \<^verbatim>\<open>None\<close>, while
  \<^verbatim>\<open>Circuit().rx(0, 157)\<close> evaluates to the circuit.
\<close>

theorem C8_rz_returns_None:
  "rz sample_env [init_fields None] 0 (PInt 0) 157
     = (Inr None,
        [(init_fields None) \<lparr> gate_list := [GateE (Sample_gate ''RZ'' (QInt 0) 157)],
                               involved_qubits := [QInt 0] \<rparr>])
   \<and> fst (rx sample_env [init_fields None] 0 (PInt 0) 157) = Inr (Some 0)"
  by (simp add: rz_def rx_def sample_env_def sample_gate_def append_gate_def init_fields_def)

subsection \<open>C9: \<^verbatim>\<open>assign\<close> without arguments\<close>




subsection \<open>C10: a new circuit is flattened\<close>

text \<open>
  Claim C10: every newly made plain \<^verbatim>\<open>Circuit\<close> has \<^verbatim>\<open>expand = True\<close>; so for every
  circuit \<open>A\<close> and plain circuit \<open>B\<close> whose flag is still the one it was made with,
  \<^verbatim>\<open>A.append(B)\<close> appends the gates of \<open>B\<close> to \<^verbatim>\<open>A.gate_list\<close>, whatever the \<^verbatim>\<open>expand\<close>
  argument and also without one, and does not nest \<open>B\<close>; a new \<^verbatim>\<open>Fragment\<close> has the flag
  False.  (When \<open>B\<close> is \<open>A\<close> the gates are those of the deep copy.  \<open>append_keeps_flags\<close>
  and \<open>assign_frame\<close> show that no method changes the flag of an existing circuit, and
  \<open>Fragment_assign_expand\<close> that the result of \<^verbatim>\<open>Fragment.assign\<close> has the flag False.)
\<close>

theorem C10_new_circuit_is_flattened:
  assumes "a < length h" "b < length h" "pyclass (h ! b) = Circuit_class" "expand (h ! b)"
  shows "expand (snd (Circuit_init h0 nm) ! fst (Circuit_init h0 nm))
       \<and> \<not> expand (snd (Fragment_init h0 nm) ! fst (Fragment_init h0 nm))
       \<and> (\<exists>h'. append E h a (Circuit_obj b) kwargs = Some (Inr (), h')
               \<and> gate_list (h' ! a) = gate_list (h ! a) @
                    (if b = a then map (relocate_entry (length h)) (gate_list (h ! b))
                     else gate_list (h ! b)))"
proof (cases "b = a")
  case True
  then show ?thesis
    using assms
    by (simp add: append_def append_circuit_self Circuit_init_def Fragment_init_def
        init_fields_def)
next
  case False
  then show ?thesis
    using assms
    by (simp add: append_def append_circuit_other Circuit_init_def Fragment_init_def
        init_fields_def)
qed

theorem C10_new_circuit_is_flattened_witness:
  "2 < length sample_heap \<and> 0 < length sample_heap
   \<and> pyclass (sample_heap ! 0) = Circuit_class \<and> expand (sample_heap ! 0)
   \<and> expand (snd (Circuit_init sample_heap None) ! fst (Circuit_init sample_heap None))
   \<and> (\<exists>h'. append sample_env sample_heap 2 (Circuit_obj 0) [] = Some (Inr (), h')
            \<and> gate_list (h' ! 2) =
                [GateE (Sample_gate ''RX'' (QInt 5) 10),
                 GateE (Sample_gate ''RX'' (QInt 0) 157), GateE (Sample_gate ''RY'' (QInt 1) 314)])"
proof -
  have h1: "2 < length sample_heap" and h2: "0 < length sample_heap"
    and h3: "pyclass (sample_heap ! 0) = Circuit_class" and h4: "expand (sample_heap ! 0)"
    by (simp_all add: sample_heap_eq)
  show ?thesis
    using C10_new_circuit_is_flattened[OF h1 h2 h3 h4, of sample_heap None sample_env "[]"]
    by (auto simp add: sample_heap_eq)
qed

end
